theory Spec2Isabelle
  imports Main "HOL-Library.Word"
begin

section \<open>Protocol logic: version ranges (src/protocol/logic.ts)\<close>

text \<open>
  The two exported functions \<^verbatim>\<open>isVersionInRange\<close> and \<^verbatim>\<open>negotiateVersion\<close> each declare
  the same local helpers \<^verbatim>\<open>parseVersion\<close> and \<^verbatim>\<open>compareVersions\<close> (textually identical
  in both), so each helper is embedded once.

  Conventions of the embedding.
  \<^item> A JavaScript string is a list of 16-bit code units. \<open>str\<close> turns a literal of this
    theory into such a string, one code unit for each character.
  \<^item> The TypeScript parameter type \<^verbatim>\<open>string\<close> is erased at run time, so an argument is a
    \<open>jsval\<close>: a string, or one of the two values on which the property access
    \<^verbatim>\<open>v.split\<close> throws a TypeError. This makes the \<^verbatim>\<open>catch\<close> branches branches of the model.
  \<^item> A Number is an IEEE double. The Numbers that occur here are the integers that are
    doubles and the two infinities; such a Number is an \<^typ>\<open>int\<close>, the integer itself,
    with \<open>2 ^ 1024\<close> for \<^verbatim>\<open>Infinity\<close> and \<open>- 2 ^ 1024\<close> for \<^verbatim>\<open>-Infinity\<close> (no finite double
    is that large, so order and equality of Numbers are those of the integers).
    \<^verbatim>\<open>NaN\<close> and \<^verbatim>\<open>undefined\<close> are \<open>None\<close>.
  \<^item> \<^verbatim>\<open>console.error\<close> appends a line to a console, which every exported function returns
    next to its result.
\<close>

type_synonym code_unit = "16 word"

type_synonym jsstring = "code_unit list"

definition str :: "string \<Rightarrow> jsstring" where
  "str s = map of_char s"

datatype jsval = JString jsstring | JUndefined | JNull

datatype error = TypeError string

subsection \<open>String.prototype.split with a one-character separator\<close>

fun js_split :: "code_unit \<Rightarrow> jsstring \<Rightarrow> jsstring list" where
  "js_split sep [] = [[]]"
| "js_split sep (c # cs) =
     (if c = sep then [] # js_split sep cs
      else (case js_split sep cs of
              [] \<Rightarrow> [[c]]
            | p # ps \<Rightarrow> (c # p) # ps))"

subsection \<open>The Number nearest to an integer\<close>

text \<open>
  A double has a significand of 53 bits. \<open>ulp_exponent m\<close> is the number of low bits of
  \<open>m\<close> that do not fit, and \<open>to_double\<close> rounds them away, to the nearest double and to
  the even significand on a tie; what reaches \<open>2 ^ 1024\<close> is \<^verbatim>\<open>Infinity\<close>.
\<close>

definition double_limit :: int where
  "double_limit = 2 ^ 1024"

function ulp_exponent :: "int \<Rightarrow> nat" where
  "ulp_exponent m = (if m < 2 ^ 53 then 0 else Suc (ulp_exponent (m div 2)))"
  by pat_completeness auto
termination
  by (relation "measure nat") auto

definition to_double :: "int \<Rightarrow> int" where
  "to_double m =
     (let e = ulp_exponent m;
          q = m div 2 ^ e;
          r = m mod 2 ^ e;
          q' = (if 2 * r > 2 ^ e \<or> (2 * r = 2 ^ e \<and> odd q) then q + 1 else q);
          x = q' * 2 ^ e
      in if x \<ge> double_limit then double_limit else x)"

subsection \<open>parseInt(part, 10)\<close>

text \<open>The white space of ECMAScript: TAB, LF, VT, FF, CR, SP, NBSP, the Unicode space
  separators, LS, PS and the byte order mark.\<close>

definition is_white_space :: "code_unit \<Rightarrow> bool" where
  "is_white_space c =
     (let u = uint c
      in u = 9 \<or> u = 10 \<or> u = 11 \<or> u = 12 \<or> u = 13 \<or> u = 32 \<or> u = 160 \<or> u = 5760
         \<or> (8192 \<le> u \<and> u \<le> 8202) \<or> u = 8232 \<or> u = 8233 \<or> u = 8239 \<or> u = 8287
         \<or> u = 12288 \<or> u = 65279)"

definition is_digit :: "code_unit \<Rightarrow> bool" where
  "is_digit c = (48 \<le> uint c \<and> uint c \<le> 57)"

definition digit_value :: "code_unit \<Rightarrow> int" where
  "digit_value c = uint c - 48"

definition digits_value :: "jsstring \<Rightarrow> int" where
  "digits_value z = foldl (\<lambda>acc c. acc * 10 + digit_value c) 0 z"

text \<open>
  \<^verbatim>\<open>parseInt\<close> with radix 10: leading white space is skipped, one sign is read, then the
  longest run of decimal digits; what follows the run is ignored. No digit at all gives
  \<^verbatim>\<open>NaN\<close>; otherwise the result is the Number nearest to the signed value of the run.
\<close>

definition parseInt :: "jsstring \<Rightarrow> int option" where
  "parseInt s =
     (let t = dropWhile is_white_space s;
          sign = (if t \<noteq> [] \<and> hd t = of_char CHR ''-'' then - 1 else 1);
          u = (if t \<noteq> [] \<and> (hd t = of_char CHR ''+'' \<or> hd t = of_char CHR ''-'')
               then tl t else t);
          z = takeWhile is_digit u
      in if z = [] then None else Some (sign * to_double (digits_value z)))"

text \<open>\<^verbatim>\<open>x || 0\<close> on a Number or \<^verbatim>\<open>undefined\<close>: the falsy values \<^verbatim>\<open>NaN\<close>, \<^verbatim>\<open>undefined\<close>
  and \<open>0\<close> give \<open>0\<close>.\<close>

definition or_zero :: "int option \<Rightarrow> int" where
  "or_zero x = (case x of None \<Rightarrow> 0 | Some n \<Rightarrow> if n = 0 then 0 else n)"

subsection \<open>parseVersion\<close>

definition parseVersion :: "jsval \<Rightarrow> error + int list" where
  "parseVersion v =
     (case v of
        JString s \<Rightarrow>
          Inr (map (\<lambda>part. or_zero (parseInt part)) (js_split (of_char CHR ''.'') s))
      | JUndefined \<Rightarrow> Inl (TypeError ''Cannot read properties of undefined (reading 'split')'')
      | JNull \<Rightarrow> Inl (TypeError ''Cannot read properties of null (reading 'split')''))"

subsection \<open>compareVersions\<close>

text \<open>\<^verbatim>\<open>v[i]\<close> is \<^verbatim>\<open>undefined\<close> beyond the end of the array.\<close>

definition index :: "int list \<Rightarrow> nat \<Rightarrow> int option" where
  "index v i = (if i < length v then Some (v ! i) else None)"

function compareVersions_loop :: "int list \<Rightarrow> int list \<Rightarrow> nat \<Rightarrow> nat \<Rightarrow> int" where
  "compareVersions_loop v1 v2 maxLength i =
     (if i < maxLength then
        (let part1 = or_zero (index v1 i);
             part2 = or_zero (index v2 i)
         in if part1 < part2 then - 1
            else if part1 > part2 then 1
            else compareVersions_loop v1 v2 maxLength (i + 1))
      else 0)"
  by pat_completeness auto
termination
  by (relation "measure (\<lambda>(v1, v2, maxLength, i). maxLength - i)") auto

definition compareVersions :: "int list \<Rightarrow> int list \<Rightarrow> int" where
  "compareVersions v1 v2 =
     (let maxLength = max (length v1) (length v2)
      in compareVersions_loop v1 v2 maxLength 0)"

subsection \<open>versionToString\<close>

text \<open>
  \<^verbatim>\<open>parts.join(".")\<close> converts every Number to a string. For a positive finite Number
  \<open>x\<close> the conversion takes the shortest digit string \<open>s\<close> and the exponent \<open>p\<close> such that
  \<open>s * 10 ^ p\<close> reads back as \<open>x\<close>, the nearest to \<open>x\<close> where several of that length do,
  the even one on a tie. With \<open>n\<close> the number of digits of \<open>s * 10 ^ p\<close>, the result is
  the digits of \<open>s\<close> followed by \<open>p\<close> zeros as long as \<open>n \<le> 21\<close>, and exponent notation
  beyond. \<open>candidate x p\<close> is the \<open>s\<close> for the exponent \<open>p\<close>, if one exists: only the two
  multiples of \<open>10 ^ p\<close> next to \<open>x\<close> can be nearest; \<open>shortest\<close> tries the exponents from
  the largest down, so the first hit has the fewest digits.
\<close>

definition digit_char :: "int \<Rightarrow> code_unit" where
  "digit_char d = word_of_int (48 + d)"

function decimal :: "int \<Rightarrow> jsstring" where
  "decimal n =
     (if n < 10 then [digit_char n]
      else decimal (n div 10) @ [digit_char (n mod 10)])"
  by pat_completeness auto
termination
  by (relation "measure nat") auto

definition candidate :: "int \<Rightarrow> nat \<Rightarrow> int option" where
  "candidate x p =
     (let lo = x div 10 ^ p;
          hi = lo + 1;
          ok_lo = (0 < lo \<and> to_double (lo * 10 ^ p) = x);
          ok_hi = (to_double (hi * 10 ^ p) = x)
      in if ok_lo \<and> ok_hi then
           (if x - lo * 10 ^ p < hi * 10 ^ p - x then Some lo
            else if hi * 10 ^ p - x < x - lo * 10 ^ p then Some hi
            else if even lo then Some lo else Some hi)
         else if ok_lo then Some lo
         else if ok_hi then Some hi
         else None)"

fun shortest :: "int \<Rightarrow> nat \<Rightarrow> int \<times> nat" where
  "shortest x 0 = (x, 0)"
| "shortest x (Suc p) =
     (case candidate x (Suc p) of
        Some s \<Rightarrow> (s, Suc p)
      | None \<Rightarrow> shortest x p)"

definition positive_to_string :: "int \<Rightarrow> jsstring" where
  "positive_to_string x =
     (if x \<ge> double_limit then str ''Infinity''
      else
        (let (s, p) = shortest x (length (decimal x));
             digits = decimal s;
             n = length digits + p
         in if n \<le> 21 then digits @ replicate p (digit_char 0)
            else if length digits = 1
              then digits @ str ''e+'' @ decimal (int n - 1)
              else hd digits # str ''.'' @ tl digits @ str ''e+'' @ decimal (int n - 1)))"

definition number_to_string :: "int \<Rightarrow> jsstring" where
  "number_to_string x =
     (if x = 0 then str ''0''
      else if x < 0 then str ''-'' @ positive_to_string (- x)
      else positive_to_string x)"

fun join :: "jsstring \<Rightarrow> jsstring list \<Rightarrow> jsstring" where
  "join sep [] = []"
| "join sep [x] = x"
| "join sep (x # y # ys) = x @ sep @ join sep (y # ys)"

definition versionToString :: "int list \<Rightarrow> jsstring" where
  "versionToString parts = join (str ''.'') (map number_to_string parts)"

subsection \<open>Exceptions and try/catch\<close>

definition bind_result :: "error + 'a \<Rightarrow> ('a \<Rightarrow> error + 'b) \<Rightarrow> error + 'b" where
  "bind_result r f = (case r of Inl e \<Rightarrow> Inl e | Inr x \<Rightarrow> f x)"

type_synonym console = "string list"

text \<open>A \<^verbatim>\<open>try\<close> body that logs nothing itself, with its \<^verbatim>\<open>catch\<close> handler.\<close>

definition try_catch ::
  "error + 'a \<Rightarrow> (error \<Rightarrow> (error + 'a) \<times> console) \<Rightarrow> (error + 'a) \<times> console" where
  "try_catch body handler = (case body of Inr x \<Rightarrow> (Inr x, []) | Inl e \<Rightarrow> handler e)"

subsection \<open>isVersionInRange\<close>

definition isVersionInRange_try :: "jsval \<Rightarrow> jsval \<Rightarrow> jsval \<Rightarrow> error + bool" where
  "isVersionInRange_try version minVersion maxVersion =
     bind_result (parseVersion version) (\<lambda>versionParts.
     bind_result (parseVersion minVersion) (\<lambda>minVersionParts.
     bind_result (parseVersion maxVersion) (\<lambda>maxVersionParts.
       (let isAboveMin = (compareVersions versionParts minVersionParts \<ge> 0);
            isBelowMax = (compareVersions versionParts maxVersionParts \<le> 0)
        in Inr (isAboveMin \<and> isBelowMax)))))"

definition isVersionInRange :: "jsval \<Rightarrow> jsval \<Rightarrow> jsval \<Rightarrow> (error + bool) \<times> console" where
  "isVersionInRange version minVersion maxVersion =
     try_catch (isVersionInRange_try version minVersion maxVersion)
       (\<lambda>e. (Inr False, [''Error parsing version strings:'']))"

subsection \<open>negotiateVersion\<close>

text \<open>The result \<^verbatim>\<open>string | null\<close> is a \<^typ>\<open>jsstring option\<close>, \<^verbatim>\<open>null\<close> being \<open>None\<close>.\<close>

definition overlapMin :: "int list \<Rightarrow> int list \<Rightarrow> int list" where
  "overlapMin clientMin serverMin =
     (if compareVersions clientMin serverMin \<ge> 0 then clientMin else serverMin)"

definition overlapMax :: "int list \<Rightarrow> int list \<Rightarrow> int list" where
  "overlapMax clientMax serverMax =
     (if compareVersions clientMax serverMax \<le> 0 then clientMax else serverMax)"

definition negotiateVersion_try ::
  "jsval \<Rightarrow> jsval \<Rightarrow> jsval \<Rightarrow> jsval \<Rightarrow> error + jsstring option" where
  "negotiateVersion_try clientMinVersion clientMaxVersion serverMinVersion serverMaxVersion =
     bind_result (parseVersion clientMinVersion) (\<lambda>clientMin.
     bind_result (parseVersion clientMaxVersion) (\<lambda>clientMax.
     bind_result (parseVersion serverMinVersion) (\<lambda>serverMin.
     bind_result (parseVersion serverMaxVersion) (\<lambda>serverMax.
       (if compareVersions (overlapMin clientMin serverMin) (overlapMax clientMax serverMax) \<le> 0
        then Inr (Some (versionToString (overlapMax clientMax serverMax)))
        else Inr None)))))"

definition negotiateVersion ::
  "jsval \<Rightarrow> jsval \<Rightarrow> jsval \<Rightarrow> jsval \<Rightarrow> (error + jsstring option) \<times> console" where
  "negotiateVersion clientMinVersion clientMaxVersion serverMinVersion serverMaxVersion =
     try_catch
       (negotiateVersion_try clientMinVersion clientMaxVersion serverMinVersion serverMaxVersion)
       (\<lambda>e. (Inr None, [''Error negotiating versions:'']))"

declare decimal.simps [simp del]
declare ulp_exponent.simps [simp del]
declare compareVersions_loop.simps [simp del]

subsection \<open>The comparator in the words of the specification\<close>

text \<open>
  The specification describes the comparator as the strictly lexicographic comparison,
  left to right, of the numeric components, the shorter version padded with \<open>0\<close>
  components. \<open>spec_compare\<close> is that description; \<open>compareVersions\<close> above is the loop
  of the source.
\<close>

definition pad_zero :: "nat \<Rightarrow> int list \<Rightarrow> int list" where
  "pad_zero n v = v @ replicate (n - length v) 0"

fun lexicographic :: "int list \<Rightarrow> int list \<Rightarrow> int" where
  "lexicographic (x # xs) (y # ys) =
     (if x < y then - 1 else if y < x then 1 else lexicographic xs ys)"
| "lexicographic _ _ = 0"

definition spec_compare :: "int list \<Rightarrow> int list \<Rightarrow> int" where
  "spec_compare v1 v2 =
     lexicographic (pad_zero (max (length v1) (length v2)) v1)
                   (pad_zero (max (length v1) (length v2)) v2)"

text \<open>Spelled-out numerals in the sense of the specification: a non-empty run of decimal
  digits and nothing else.\<close>

definition valid_numeral :: "jsstring \<Rightarrow> bool" where
  "valid_numeral part = (part \<noteq> [] \<and> (\<forall>c \<in> set part. is_digit c))"

text \<open>A version string in the sense of the specification: dot-separated numerals. Its
  numeric components are the values of the numerals. The integers up to \<open>2 ^ 53\<close> are the
  initial segment of the integers that are all doubles.\<close>

definition valid_version :: "jsstring \<Rightarrow> bool" where
  "valid_version s = (\<forall>part \<in> set (js_split (of_char CHR ''.'') s). valid_numeral part)"

definition spec_components :: "jsstring \<Rightarrow> int list" where
  "spec_components s = map digits_value (js_split (of_char CHR ''.'') s)"

definition safe_version :: "jsstring \<Rightarrow> bool" where
  "safe_version s = (valid_version s \<and> (\<forall>n \<in> set (spec_components s). n \<le> 2 ^ 53))"

subsection \<open>The two functions step by step\<close>

text \<open>
  The definitions above are HOL functions, which return one value for every argument by
  construction. To state that the code always returns, and returns one thing, the
  functions are given once more as relations between what goes in and what comes out,
  with one rule for every path through the code. Every loop is a relation between the
  state of the loop and its result, so that a loop that does not end relates its input
  to nothing: the scans for white space and for digits inside \<^verbatim>\<open>parseInt\<close> (\<open>scan\<close>), the
  search for separators inside \<^verbatim>\<open>split\<close> (from position \<open>q\<close>, the current piece starting
  at \<open>p\<close>), the iteration of \<^verbatim>\<open>map\<close> over the pieces, and the \<^verbatim>\<open>for\<close> loop of
  \<^verbatim>\<open>compareVersions\<close>. The two exported functions have one rule for the return of the
  \<^verbatim>\<open>try\<close> body and one for each call of \<^verbatim>\<open>parseVersion\<close> that can throw into the
  \<^verbatim>\<open>catch\<close>.
\<close>

inductive scan :: "(code_unit \<Rightarrow> bool) \<Rightarrow> jsstring \<Rightarrow> nat \<Rightarrow> nat \<Rightarrow> bool"
  for P :: "code_unit \<Rightarrow> bool" and s :: jsstring where
  scan_stop: "\<not> (i < length s \<and> P (s ! i)) \<Longrightarrow> scan P s i i"
| scan_step: "i < length s \<Longrightarrow> P (s ! i) \<Longrightarrow> scan P s (Suc i) j \<Longrightarrow> scan P s i j"

definition sign_at :: "jsstring \<Rightarrow> nat \<Rightarrow> int" where
  "sign_at s i = (if i < length s \<and> s ! i = of_char CHR ''-'' then - 1 else 1)"

definition after_sign :: "jsstring \<Rightarrow> nat \<Rightarrow> nat" where
  "after_sign s i =
     (if i < length s \<and> (s ! i = of_char CHR ''+'' \<or> s ! i = of_char CHR ''-'')
      then Suc i else i)"

inductive parseInt_exec :: "jsstring \<Rightarrow> int option \<Rightarrow> bool" where
  parseInt_NaN:
    "scan is_white_space s 0 i \<Longrightarrow> scan is_digit s (after_sign s i) k \<Longrightarrow>
     k = after_sign s i \<Longrightarrow> parseInt_exec s None"
| parseInt_Number:
    "scan is_white_space s 0 i \<Longrightarrow> scan is_digit s (after_sign s i) k \<Longrightarrow>
     k \<noteq> after_sign s i \<Longrightarrow>
     parseInt_exec s
       (Some (sign_at s i
          * to_double (digits_value (take (k - after_sign s i) (drop (after_sign s i) s)))))"

inductive split_exec ::
  "code_unit \<Rightarrow> jsstring \<Rightarrow> nat \<Rightarrow> nat \<Rightarrow> jsstring list \<Rightarrow> jsstring list \<Rightarrow> bool"
  for sep :: code_unit and s :: jsstring where
  split_end: "\<not> q < length s \<Longrightarrow> split_exec sep s p q A (A @ [drop p s])"
| split_hit:
    "q < length s \<Longrightarrow> s ! q = sep \<Longrightarrow>
     split_exec sep s (Suc q) (Suc q) (A @ [take (q - p) (drop p s)]) r \<Longrightarrow>
     split_exec sep s p q A r"
| split_miss:
    "q < length s \<Longrightarrow> s ! q \<noteq> sep \<Longrightarrow> split_exec sep s p (Suc q) A r \<Longrightarrow>
     split_exec sep s p q A r"

inductive map_exec :: "jsstring list \<Rightarrow> nat \<Rightarrow> int list \<Rightarrow> int list \<Rightarrow> bool"
  for parts :: "jsstring list" where
  map_end: "\<not> k < length parts \<Longrightarrow> map_exec parts k A A"
| map_step:
    "k < length parts \<Longrightarrow> parseInt_exec (parts ! k) n \<Longrightarrow>
     map_exec parts (Suc k) (A @ [or_zero n]) r \<Longrightarrow> map_exec parts k A r"

inductive parseVersion_exec :: "jsval \<Rightarrow> error + int list \<Rightarrow> bool" where
  parseVersion_string:
    "split_exec (of_char CHR ''.'') s 0 0 [] pieces \<Longrightarrow> map_exec pieces 0 [] parts \<Longrightarrow>
     parseVersion_exec (JString s) (Inr parts)"
| parseVersion_undefined:
    "parseVersion_exec JUndefined
       (Inl (TypeError ''Cannot read properties of undefined (reading 'split')''))"
| parseVersion_null:
    "parseVersion_exec JNull
       (Inl (TypeError ''Cannot read properties of null (reading 'split')''))"

inductive compare_exec :: "int list \<Rightarrow> int list \<Rightarrow> nat \<Rightarrow> nat \<Rightarrow> int \<Rightarrow> bool"
  for v1 v2 :: "int list" and maxLength :: nat where
  compare_end: "\<not> i < maxLength \<Longrightarrow> compare_exec v1 v2 maxLength i 0"
| compare_less:
    "i < maxLength \<Longrightarrow> or_zero (index v1 i) < or_zero (index v2 i) \<Longrightarrow>
     compare_exec v1 v2 maxLength i (- 1)"
| compare_greater:
    "i < maxLength \<Longrightarrow> \<not> or_zero (index v1 i) < or_zero (index v2 i) \<Longrightarrow>
     or_zero (index v1 i) > or_zero (index v2 i) \<Longrightarrow>
     compare_exec v1 v2 maxLength i 1"
| compare_next:
    "i < maxLength \<Longrightarrow> \<not> or_zero (index v1 i) < or_zero (index v2 i) \<Longrightarrow>
     \<not> or_zero (index v1 i) > or_zero (index v2 i) \<Longrightarrow>
     compare_exec v1 v2 maxLength (i + 1) r \<Longrightarrow>
     compare_exec v1 v2 maxLength i r"

definition compareVersions_exec :: "int list \<Rightarrow> int list \<Rightarrow> int \<Rightarrow> bool" where
  "compareVersions_exec v1 v2 r = compare_exec v1 v2 (max (length v1) (length v2)) 0 r"

inductive isVersionInRange_exec :: "jsval \<Rightarrow> jsval \<Rightarrow> jsval \<Rightarrow> bool \<times> console \<Rightarrow> bool" where
  isVersionInRange_returns:
    "parseVersion_exec version (Inr versionParts) \<Longrightarrow>
     parseVersion_exec minVersion (Inr minVersionParts) \<Longrightarrow>
     parseVersion_exec maxVersion (Inr maxVersionParts) \<Longrightarrow>
     compareVersions_exec versionParts minVersionParts c1 \<Longrightarrow>
     compareVersions_exec versionParts maxVersionParts c2 \<Longrightarrow>
     isVersionInRange_exec version minVersion maxVersion (c1 \<ge> 0 \<and> c2 \<le> 0, [])"
| isVersionInRange_catch1:
    "parseVersion_exec version (Inl e) \<Longrightarrow>
     isVersionInRange_exec version minVersion maxVersion
       (False, [''Error parsing version strings:''])"
| isVersionInRange_catch2:
    "parseVersion_exec version (Inr versionParts) \<Longrightarrow>
     parseVersion_exec minVersion (Inl e) \<Longrightarrow>
     isVersionInRange_exec version minVersion maxVersion
       (False, [''Error parsing version strings:''])"
| isVersionInRange_catch3:
    "parseVersion_exec version (Inr versionParts) \<Longrightarrow>
     parseVersion_exec minVersion (Inr minVersionParts) \<Longrightarrow>
     parseVersion_exec maxVersion (Inl e) \<Longrightarrow>
     isVersionInRange_exec version minVersion maxVersion
       (False, [''Error parsing version strings:''])"

inductive negotiateVersion_exec ::
  "jsval \<Rightarrow> jsval \<Rightarrow> jsval \<Rightarrow> jsval \<Rightarrow> jsstring option \<times> console \<Rightarrow> bool" where
  negotiateVersion_returns:
    "parseVersion_exec clientMinVersion (Inr clientMin) \<Longrightarrow>
     parseVersion_exec clientMaxVersion (Inr clientMax) \<Longrightarrow>
     parseVersion_exec serverMinVersion (Inr serverMin) \<Longrightarrow>
     parseVersion_exec serverMaxVersion (Inr serverMax) \<Longrightarrow>
     compareVersions_exec clientMin serverMin c1 \<Longrightarrow>
     lo = (if c1 \<ge> 0 then clientMin else serverMin) \<Longrightarrow>
     compareVersions_exec clientMax serverMax c2 \<Longrightarrow>
     hi = (if c2 \<le> 0 then clientMax else serverMax) \<Longrightarrow>
     compareVersions_exec lo hi c3 \<Longrightarrow>
     negotiateVersion_exec clientMinVersion clientMaxVersion serverMinVersion serverMaxVersion
       (if c3 \<le> 0 then Some (versionToString hi) else None, [])"
| negotiateVersion_catch1:
    "parseVersion_exec clientMinVersion (Inl e) \<Longrightarrow>
     negotiateVersion_exec clientMinVersion clientMaxVersion serverMinVersion serverMaxVersion
       (None, [''Error negotiating versions:''])"
| negotiateVersion_catch2:
    "parseVersion_exec clientMinVersion (Inr clientMin) \<Longrightarrow>
     parseVersion_exec clientMaxVersion (Inl e) \<Longrightarrow>
     negotiateVersion_exec clientMinVersion clientMaxVersion serverMinVersion serverMaxVersion
       (None, [''Error negotiating versions:''])"
| negotiateVersion_catch3:
    "parseVersion_exec clientMinVersion (Inr clientMin) \<Longrightarrow>
     parseVersion_exec clientMaxVersion (Inr clientMax) \<Longrightarrow>
     parseVersion_exec serverMinVersion (Inl e) \<Longrightarrow>
     negotiateVersion_exec clientMinVersion clientMaxVersion serverMinVersion serverMaxVersion
       (None, [''Error negotiating versions:''])"
| negotiateVersion_catch4:
    "parseVersion_exec clientMinVersion (Inr clientMin) \<Longrightarrow>
     parseVersion_exec clientMaxVersion (Inr clientMax) \<Longrightarrow>
     parseVersion_exec serverMinVersion (Inr serverMin) \<Longrightarrow>
     parseVersion_exec serverMaxVersion (Inl e) \<Longrightarrow>
     negotiateVersion_exec clientMinVersion clientMaxVersion serverMinVersion serverMaxVersion
       (None, [''Error negotiating versions:''])"

section \<open>Patient data store (src/demo/inverted/patient-dashboard.ts)\<close>

text \<open>
  The dashboard keeps one mutable \<^verbatim>\<open>patientData\<close> object and reads and writes the page
  through \<^verbatim>\<open>document.getElementById\<close>. The state of the model is that object, the
  elements of the document by id, and the console. The type of Numbers is a parameter
  \<open>'n\<close>, and the conversion of a Number to a string, which the template literals and
  \<^verbatim>\<open>value.toString()\<close> use, is a parameter \<open>toString\<close> of the functions that print one.
\<close>

record 'n BloodPressure =
  systolic :: 'n
  diastolic :: 'n

datatype Severity = Mild | Moderate | Severe

record Allergy =
  allergy_name :: string
  severity :: Severity

record Medication =
  medication_name :: string
  dosage :: string
  frequency :: string
  prescribedDate :: string

record 'n PatientData =
  name :: string
  patientId :: string
  dob :: string
  age :: 'n
  bloodPressure :: "'n BloodPressure"
  bloodSugar :: 'n
  lastVisit :: string
  totalVisits :: 'n
  nextAppointment :: string
  allergies :: "Allergy list"
  medications :: "Medication list"

text \<open>
  The list item that \<^verbatim>\<open>addMedicalHistoryEntry\<close> builds has the class \<^verbatim>\<open>activity-item\<close> and a
  fixed markup around three interpolated strings; it is represented by those three.
\<close>

record activity_item =
  entry_icon :: string
  entry_title :: string
  entry_time :: string

record element =
  textContent :: string
  children :: "activity_item list"

record 'n page =
  patientData :: "'n PatientData"
  document :: "string \<rightharpoonup> element"
  console_log :: "string list"

text \<open>The two icons are the UTF-8 bytes of U+1FA7A (stethoscope) and U+1FA78 (drop of blood).\<close>

definition stethoscope :: string where
  "stethoscope = [CHR 0xF0, CHR 0x9F, CHR 0xA9, CHR 0xBA]"

definition drop_of_blood :: string where
  "drop_of_blood = [CHR 0xF0, CHR 0x9F, CHR 0xA9, CHR 0xB8]"

definition addMedicalHistoryEntry :: "string \<Rightarrow> string \<Rightarrow> string \<Rightarrow> 'n page \<Rightarrow> 'n page" where
  "addMedicalHistoryEntry icon title time st =
     (case document st ''medical-history'' of
        None \<Rightarrow> st
      | Some historyList \<Rightarrow>
          st\<lparr>document := (document st)(''medical-history'' \<mapsto>
                 historyList\<lparr>children :=
                   \<lparr>entry_icon = icon, entry_title = title, entry_time = time\<rparr>
                     # children historyList\<rparr>),
             console_log := console_log st
                 @ [''Medical history entry added: '' @ title @ '' - '' @ time]\<rparr>)"

definition updateBloodPressure :: "('n \<Rightarrow> string) \<Rightarrow> 'n \<Rightarrow> 'n \<Rightarrow> 'n page \<Rightarrow> 'n page" where
  "updateBloodPressure toString sys dia st =
     (case document st ''last-bp'' of
        None \<Rightarrow> st
      | Some bpElement \<Rightarrow>
          addMedicalHistoryEntry stethoscope ''Blood Pressure Check'' ''Today''
            (st\<lparr>document := (document st)(''last-bp'' \<mapsto>
                   bpElement\<lparr>textContent := toString sys @ ''/'' @ toString dia\<rparr>),
               console_log := console_log st
                   @ [''Blood pressure updated to: '' @ toString sys @ ''/'' @ toString dia
                        @ '' mmHg''],
               patientData := (patientData st)
                   \<lparr>bloodPressure := \<lparr>systolic = sys, diastolic = dia\<rparr>\<rparr>\<rparr>))"

definition updateBloodSugar :: "('n \<Rightarrow> string) \<Rightarrow> 'n \<Rightarrow> 'n page \<Rightarrow> 'n page" where
  "updateBloodSugar toString v st =
     (case document st ''last-sugar'' of
        None \<Rightarrow> st
      | Some sugarElement \<Rightarrow>
          addMedicalHistoryEntry drop_of_blood ''Blood Sugar Test'' ''Today''
            (st\<lparr>document := (document st)(''last-sugar'' \<mapsto>
                   sugarElement\<lparr>textContent := toString v\<rparr>),
               console_log := console_log st
                   @ [''Blood sugar updated to: '' @ toString v @ '' mg/dL''],
               patientData := (patientData st)\<lparr>bloodSugar := v\<rparr>\<rparr>))"

text \<open>The initial value of \<^verbatim>\<open>patientData\<close> in the source, and two pages around it: one whose
  document has none of the elements, one that has the three the functions look up.\<close>

definition initial_patientData :: "int PatientData" where
  "initial_patientData =
     \<lparr>name = ''John Peterson'', patientId = ''PT-2024-001'', dob = ''March 15, 1985'',
      age = 40, bloodPressure = \<lparr>systolic = 120, diastolic = 80\<rparr>, bloodSugar = 95,
      lastVisit = ''Jan 15, 2025'', totalVisits = 12, nextAppointment = ''Feb 10, 2025'',
      allergies = [\<lparr>allergy_name = ''Penicillin'', severity = Severe\<rparr>,
                   \<lparr>allergy_name = ''Shellfish'', severity = Moderate\<rparr>],
      medications = [\<lparr>medication_name = ''Lisinopril'', dosage = ''10mg'',
                        frequency = ''Daily'', prescribedDate = ''Jan 1, 2025''\<rparr>,
                     \<lparr>medication_name = ''Metformin'', dosage = ''500mg'',
                        frequency = ''Twice daily'', prescribedDate = ''Dec 15, 2024''\<rparr>]\<rparr>"

text \<open>A Number of the version model printed into a string of this theory.\<close>

definition number_text :: "int \<Rightarrow> string" where
  "number_text n = map (\<lambda>c. char_of (unat c)) (number_to_string n)"

definition bare_page :: "int page" where
  "bare_page = \<lparr>patientData = initial_patientData, document = Map.empty, console_log = []\<rparr>"

definition dashboard_page :: "int page" where
  "dashboard_page =
     \<lparr>patientData = initial_patientData,
      document = [''last-bp'' \<mapsto> \<lparr>textContent = ''120/80'', children = []\<rparr>,
                  ''last-sugar'' \<mapsto> \<lparr>textContent = ''95'', children = []\<rparr>,
                  ''medical-history'' \<mapsto> \<lparr>textContent = [], children = []\<rparr>],
      console_log = []\<rparr>"

section \<open>Start-up of the outer page (initializeCopilot in patient-dashboard.ts)\<close>

text \<open>
  \<^verbatim>\<open>initializeCopilot\<close> shows the loading state, arms a 5 second fallback timer whose
  callback shows the frame, and (in the synchronous first part of
  \<^verbatim>\<open>initializeWithTimeout\<close>) registers a \<^verbatim>\<open>load\<close> listener on the frame that clears the
  timer and shows the frame. The page is single threaded: callbacks run one at a time, in
  the order in which their events become due. The model is a state machine over those
  events; how long a timer takes is abstracted to the point at which it becomes due. One
  call of \<^verbatim>\<open>initializeCopilot\<close> is modelled, with its synchronous set-up succeeding.

  The three methods of \<^verbatim>\<open>DashboardUI\<close> set the display of the frame, of the loading
  panel and of the error panel together with the status text; \<open>ui_state\<close> names the three
  combinations.
\<close>

datatype ui_state = Loading | Connected | Disconnected

datatype callback = FallbackTimeout | LoadListener | InitializationCatch | InitializationDone

record outer_page =
  ui :: ui_state
  fallbackTimeout :: bool
  loadListener :: bool
  ran :: "callback list"

datatype outer_event = TimerDue | IframeLoad | InitializationFailed | InitializationCompleted

definition showLoading :: "outer_page \<Rightarrow> outer_page" where
  "showLoading s = s\<lparr>ui := Loading\<rparr>"

definition showConnected :: "outer_page \<Rightarrow> outer_page" where
  "showConnected s = s\<lparr>ui := Connected\<rparr>"

definition showError :: "outer_page \<Rightarrow> outer_page" where
  "showError s = s\<lparr>ui := Disconnected\<rparr>"

text \<open>\<open>fallbackTimeout\<close> holds while the timer is armed: \<^verbatim>\<open>clearTimeout\<close> disarms it, and so
  does its firing.\<close>

definition clearTimeout :: "outer_page \<Rightarrow> outer_page" where
  "clearTimeout s = s\<lparr>fallbackTimeout := False\<rparr>"

text \<open>The state in which \<^verbatim>\<open>initializeCopilot\<close> leaves a freshly loaded page at its first
  \<^verbatim>\<open>await\<close>: \<^verbatim>\<open>ui.showLoading()\<close>, then \<^verbatim>\<open>setTimeout\<close>, then the registration of the
  \<^verbatim>\<open>load\<close> listener.\<close>

definition initializeCopilot :: outer_page where
  "initializeCopilot =
     (showLoading \<lparr>ui = Loading, fallbackTimeout = False, loadListener = False, ran = []\<rparr>)
       \<lparr>fallbackTimeout := True, loadListener := True\<rparr>"

text \<open>
  One event. A timer that is not armed does not fire. The \<^verbatim>\<open>load\<close> listener is registered
  without \<^verbatim>\<open>once\<close> and never removed, so it runs on every \<^verbatim>\<open>load\<close> event. The \<^verbatim>\<open>catch\<close>
  branch of \<^verbatim>\<open>initializeCopilot\<close> clears the timer and shows the error panel; the end of
  \<^verbatim>\<open>initializeWithTimeout\<close> shows the frame.
\<close>

fun step :: "outer_page \<Rightarrow> outer_event \<Rightarrow> outer_page" where
  "step s TimerDue =
     (if fallbackTimeout s
      then showConnected (s\<lparr>fallbackTimeout := False, ran := ran s @ [FallbackTimeout]\<rparr>)
      else s)"
| "step s IframeLoad =
     (if loadListener s
      then showConnected (clearTimeout (s\<lparr>ran := ran s @ [LoadListener]\<rparr>))
      else s)"
| "step s InitializationFailed =
     showError (clearTimeout (s\<lparr>ran := ran s @ [InitializationCatch]\<rparr>))"
| "step s InitializationCompleted =
     showConnected (s\<lparr>ran := ran s @ [InitializationDone]\<rparr>)"

definition run :: "outer_page \<Rightarrow> outer_event list \<Rightarrow> outer_page" where
  "run s events = foldl step s events"

section \<open>Start-up of the inner page (the DOMContentLoaded handler of the copilot clients)\<close>

text \<open>
  Both copilot clients register the same \<^verbatim>\<open>DOMContentLoaded\<close> handler. It logs, registers a
  \<^verbatim>\<open>message\<close> listener, posts the ready signal to the parent when the page is embedded, and
  only then constructs the \<^verbatim>\<open>CopilotApp\<close> and awaits its \<^verbatim>\<open>initialize\<close>, inside which the
  transport is created and connected. The handler is modelled by the sequence of effects
  it performs, in program order. What lies outside the handler is a parameter: whether
  the page is embedded, whether the constructor (or \<^verbatim>\<open>initialize\<close> before its own
  \<^verbatim>\<open>try\<close>) throws, how the transport handshake ends, and whether the element
  \<^verbatim>\<open>chat-messages\<close> exists.
\<close>

record ready_signal =
  signal_type :: string
  signal_message :: string

datatype handshake = Completes | Fails | NeverSettles

datatype effect =
    ConsoleLog string
  | ConsoleError string
  | AddMessageListener
  | PostMessageToParent ready_signal string
  | NewCopilotApp
  | ShowConnecting
  | TransportPrepareToConnect
  | ClientConnect
  | ShowConnected
  | ShowLimitedMode
  | ShowInitializationError

record inner_page =
  embedded :: bool
  startup_throws :: bool
  transport_handshake :: handshake
  has_chat_messages :: bool

text \<open>\<^verbatim>\<open>CopilotApp.initialize\<close>: everything from the creation of the window control on is
  inside its own \<^verbatim>\<open>try\<close>, whose \<^verbatim>\<open>catch\<close> falls back to a limited mode. The console
  lines about the OpenAI key, the window control, the client and the tools are left out.\<close>

definition initialize :: "inner_page \<Rightarrow> effect list" where
  "initialize p =
     [ConsoleLog ''[AI-COPILOT] Initializing...'', ShowConnecting,
      ConsoleLog ''[AI-COPILOT] Creating transport...'',
      ConsoleLog ''[AI-COPILOT] Preparing to connect...'', TransportPrepareToConnect]
     @ (case transport_handshake p of
          NeverSettles \<Rightarrow> []
        | Fails \<Rightarrow> [ConsoleError ''[AI-COPILOT] Failed to initialize:'', ShowLimitedMode]
        | Completes \<Rightarrow>
            [ConsoleLog ''[AI-COPILOT] Connecting client to transport...'', ClientConnect,
             ShowConnected,
             ConsoleLog ''[AI-COPILOT] Successfully connected to parent dashboard''])"

definition DOMContentLoaded :: "inner_page \<Rightarrow> effect list" where
  "DOMContentLoaded p =
     [ConsoleLog ''[AI-COPILOT] Page loaded, creating application...'',
      ConsoleLog ''[AI-COPILOT] DOM elements check:'',
      AddMessageListener]
     @ (if embedded p
        then [ConsoleLog ''[AI-COPILOT] Sending ready signal to parent'',
              PostMessageToParent
                \<lparr>signal_type = ''copilot-ready'',
                 signal_message = ''AI Copilot iframe is ready''\<rparr> ''*'']
        else [])
     @ (if startup_throws p
        then [NewCopilotApp, ConsoleError ''[AI-COPILOT] Failed to initialize application:'']
             @ (if has_chat_messages p then [ShowInitializationError] else [])
        else [NewCopilotApp] @ initialize p
             @ (case transport_handshake p of
                  NeverSettles \<Rightarrow> []
                | _ \<Rightarrow> [ConsoleLog ''[AI-COPILOT] Application initialized successfully'']))"

text \<open>The effects that belong to the transport handshake.\<close>

definition transport_effect :: "effect \<Rightarrow> bool" where
  "transport_effect e = (e = TransportPrepareToConnect \<or> e = ClientConnect)"

text \<open>The effects of the handler of an embedded page up to and including the ready signal.\<close>

definition ready_prefix :: "effect list" where
  "ready_prefix =
     [ConsoleLog ''[AI-COPILOT] Page loaded, creating application...'',
      ConsoleLog ''[AI-COPILOT] DOM elements check:'',
      AddMessageListener,
      ConsoleLog ''[AI-COPILOT] Sending ready signal to parent'',
      PostMessageToParent
        \<lparr>signal_type = ''copilot-ready'', signal_message = ''AI Copilot iframe is ready''\<rparr> ''*'']"

section \<open>Properties of the version functions\<close>

subsection \<open>Rounding to a double\<close>

lemma ulp_exponent_small: "m < 2 ^ 53 \<Longrightarrow> ulp_exponent m = 0"
  by (subst ulp_exponent.simps) simp

lemma ulp_exponent_large: "\<not> m < 2 ^ 53 \<Longrightarrow> ulp_exponent m = Suc (ulp_exponent (m div 2))"
  by (subst ulp_exponent.simps) simp

lemma div_power_Suc: "(m::int) div 2 ^ Suc e = m div 2 div 2 ^ e"
  by (simp add: zdiv_zmult2_eq)

lemma floor_mult_le: "0 < d \<Longrightarrow> d * (m div d) \<le> (m::int)"
  using pos_mod_sign [of d m] by (simp flip: minus_mod_eq_mult_div)


lemma ulp_div_lower: "0 < ulp_exponent m \<Longrightarrow> 2 ^ 52 \<le> m div 2 ^ ulp_exponent m"
proof (induction m rule: ulp_exponent.induct)
  case (1 m)
  from 1(2) have large: "\<not> m < 2 ^ 53"
    by (auto simp: ulp_exponent_small)
  show ?case
  proof (cases "0 < ulp_exponent (m div 2)")
    case True
    with 1(1) large show ?thesis
      by (simp add: ulp_exponent_large div_power_Suc del: power_Suc)
  next
    case False
    then have z: "ulp_exponent (m div 2) = 0" by simp
    from large have "2 ^ 52 \<le> m div 2" by simp
    with z large show ?thesis
      by (simp add: ulp_exponent_large)
  qed
qed

lemma ulp_exponent_unique:
  "0 < e \<Longrightarrow> 2 ^ 52 \<le> m div 2 ^ e \<Longrightarrow> m div 2 ^ e < 2 ^ 53 \<Longrightarrow> ulp_exponent m = e"
proof (induction e arbitrary: m)
  case 0
  then show ?case by simp
next
  case (Suc e)
  have d: "m div 2 ^ Suc e = m div 2 div 2 ^ e" by (rule div_power_Suc)
  have large: "\<not> m < 2 ^ 53"
  proof -
    have "2 ^ Suc e * (m div 2 ^ Suc e) \<le> m"
      by (rule floor_mult_le) simp
    moreover have "(2::int) * 2 ^ 52 \<le> 2 ^ Suc e * (m div 2 ^ Suc e)"
      using Suc.prems(2) by (intro mult_mono) simp_all
    ultimately show ?thesis by simp
  qed
  show ?case
  proof (cases "e = 0")
    case True
    with Suc.prems(3) have "m div 2 < 2 ^ 53" by simp
    with large True show ?thesis
      by (simp add: ulp_exponent_large ulp_exponent_small)
  next
    case False
    then have "ulp_exponent (m div 2) = e"
      using Suc.IH [of "m div 2"] Suc.prems(2,3) d by simp
    with large show ?thesis by (simp add: ulp_exponent_large)
  qed
qed

lemma limit_gt: "(2::int) ^ 53 < double_limit"
  by (simp add: double_limit_def)

lemma to_double_small: "m < 2 ^ 53 \<Longrightarrow> to_double m = m"
  using limit_gt by (simp add: to_double_def ulp_exponent_small Let_def)

lemma to_double_exact:
  assumes "q < 2 ^ 53" "e = 0 \<or> 2 ^ 52 \<le> q"
  shows "to_double (q * 2 ^ e) = (if q * 2 ^ e \<ge> double_limit then double_limit else q * 2 ^ e)"
proof (cases "e = 0")
  case True
  with assms(1) show ?thesis using limit_gt by (simp add: to_double_small)
next
  case False
  with assms(2) have q: "2 ^ 52 \<le> q" by simp
  have u: "ulp_exponent (q * 2 ^ e) = e"
    by (rule ulp_exponent_unique) (use False q assms(1) in simp_all)
  show ?thesis
    unfolding to_double_def u Let_def by simp
qed





lemma to_double_ge_representable:
  assumes "c < 2 ^ 53" "c * 2 ^ k \<le> m" "c * 2 ^ k \<le> double_limit" "0 \<le> c"
  shows "c * 2 ^ k \<le> to_double m"
proof -
  let ?e = "ulp_exponent m"
  let ?q = "m div 2 ^ ?e"
  let ?r = "m mod 2 ^ ?e"
  let ?q' = "if 2 * ?r > 2 ^ ?e \<or> (2 * ?r = 2 ^ ?e \<and> odd ?q) then ?q + 1 else ?q"
  have floor: "c * 2 ^ k \<le> ?q * 2 ^ ?e"
  proof (cases "?e \<le> k")
    case True
    then obtain j where k: "k = ?e + j" using le_Suc_ex by blast
    have "c * 2 ^ j * 2 ^ ?e \<le> m" using assms(2) by (simp add: k power_add ac_simps)
    then have "c * 2 ^ j \<le> ?q"
      by (simp add: zdiv_mono1 [of "c * 2 ^ j * 2 ^ ?e" m "2 ^ ?e", simplified])
    then have "c * 2 ^ j * 2 ^ ?e \<le> ?q * 2 ^ ?e" by simp
    then show ?thesis by (simp add: k power_add ac_simps)
  next
    case False
    then have e: "0 < ?e" "Suc k \<le> ?e" by simp_all
    from ulp_div_lower [OF e(1)] have q: "2 ^ 52 \<le> ?q" .
    have "c * 2 ^ k \<le> 2 ^ 53 * 2 ^ k" using assms(1) by simp
    also have "\<dots> = 2 ^ 52 * 2 ^ Suc k" by simp
    also have "\<dots> \<le> 2 ^ 52 * 2 ^ ?e"
      using e(2) by (simp del: power_Suc add: power_increasing)
    also have "\<dots> \<le> ?q * 2 ^ ?e" using q by simp
    finally show ?thesis .
  qed
  have "?q * 2 ^ ?e \<le> ?q' * 2 ^ ?e" by simp
  with floor have "c * 2 ^ k \<le> ?q' * 2 ^ ?e" by linarith
  then show ?thesis
    using assms(3) by (simp add: to_double_def Let_def)
qed

lemma to_double_ge_2_53: "2 ^ 53 \<le> m \<Longrightarrow> 2 ^ 53 \<le> to_double m"
  using to_double_ge_representable [of "2 ^ 52" 1 m] limit_gt by simp

lemma to_double_ge_10_21: "10 ^ 21 \<le> m \<Longrightarrow> 10 ^ 21 \<le> to_double m"
  using to_double_ge_representable [of "5 ^ 21" 21 m] by (simp add: double_limit_def)

lemma to_double_le_2_53: "m \<le> 2 ^ 53 \<Longrightarrow> to_double m = m"
proof (cases "m = 2 ^ 53")
  case True
  have "to_double (2 ^ 52 * 2 ^ 1) = 2 ^ 52 * 2 ^ 1"
    by (subst to_double_exact) (simp_all add: double_limit_def)
  with True show ?thesis by simp
next
  case False
  assume "m \<le> 2 ^ 53"
  with False show ?thesis by (simp add: to_double_small)
qed

subsection \<open>Decimal digits\<close>

lemma uint_digit_char:
  assumes "0 \<le> d" "d < 10"
  shows "uint (digit_char d) = 48 + d"
proof -
  from assms have "d \<in> {0, 1, 2, 3, 4, 5, 6, 7, 8, 9}" by simp presburger
  then show ?thesis by (auto simp: digit_char_def)
qed

lemma is_digit_digit_char: "0 \<le> d \<Longrightarrow> d < 10 \<Longrightarrow> is_digit (digit_char d)"
  by (simp add: is_digit_def uint_digit_char)

lemma digit_value_digit_char: "0 \<le> d \<Longrightarrow> d < 10 \<Longrightarrow> digit_value (digit_char d) = d"
  by (simp add: digit_value_def uint_digit_char)

lemma digits_value_snoc: "digits_value (z @ [c]) = digits_value z * 10 + digit_value c"
  by (simp add: digits_value_def)

lemma decimal_small: "n < 10 \<Longrightarrow> decimal n = [digit_char n]"
  by (subst decimal.simps) simp

lemma decimal_large: "\<not> n < 10 \<Longrightarrow> decimal n = decimal (n div 10) @ [digit_char (n mod 10)]"
  by (subst decimal.simps) simp

lemma decimal_digits: "0 \<le> n \<Longrightarrow> \<forall>c \<in> set (decimal n). is_digit c"
proof (induction n rule: decimal.induct)
  case (1 n)
  show ?case
  proof (cases "n < 10")
    case True
    with 1(2) show ?thesis by (simp add: decimal_small is_digit_digit_char)
  next
    case False
    with 1 show ?thesis
      by (simp add: decimal_large is_digit_digit_char)
  qed
qed

lemma decimal_nonempty: "decimal n \<noteq> []"
  by (subst decimal.simps) simp

lemma digits_value_decimal: "0 \<le> n \<Longrightarrow> digits_value (decimal n) = n"
proof (induction n rule: decimal.induct)
  case (1 n)
  show ?case
  proof (cases "n < 10")
    case True
    with 1(2) show ?thesis
      by (simp add: decimal_small digits_value_def digit_value_digit_char)
  next
    case False
    with 1 have "digits_value (decimal (n div 10)) = n div 10" by simp
    with False show ?thesis
      by (simp add: decimal_large digits_value_snoc digit_value_digit_char)
  qed
qed

lemma decimal_times_10: "0 < s \<Longrightarrow> decimal (s * 10) = decimal s @ [digit_char 0]"
  by (subst decimal.simps) simp

lemma decimal_times_power:
  "0 < s \<Longrightarrow> decimal (s * 10 ^ p) = decimal s @ replicate p (digit_char 0)"
proof (induction p)
  case 0
  then show ?case by simp
next
  case (Suc p)
  have "decimal (s * 10 ^ Suc p) = decimal (s * 10 ^ p * 10)" by (simp add: ac_simps)
  also have "\<dots> = decimal (s * 10 ^ p) @ [digit_char 0]"
    using Suc.prems by (intro decimal_times_10) simp
  finally show ?case using Suc by (simp add: replicate_append_same)
qed

lemma length_decimal_bound: "0 < k \<Longrightarrow> v < 10 ^ k \<Longrightarrow> length (decimal v) \<le> k"
proof (induction k arbitrary: v)
  case 0
  then show ?case by simp
next
  case (Suc k)
  show ?case
  proof (cases "v < 10")
    case True
    then show ?thesis by (simp add: decimal_small)
  next
    case False
    then have k: "0 < k"
      using Suc.prems(2) by (cases k) simp_all
    have "v div 10 < 10 ^ k" using Suc.prems(2) by simp
    from Suc.IH [OF k this] False show ?thesis by (simp add: decimal_large)
  qed
qed

subsection \<open>parseInt on numerals\<close>

lemma is_digit_not_special:
  "is_digit c \<Longrightarrow>
   \<not> is_white_space c \<and> c \<noteq> of_char CHR ''-'' \<and> c \<noteq> of_char CHR ''+'' \<and> c \<noteq> of_char CHR ''.''"
  by (auto simp: is_digit_def is_white_space_def Let_def)

lemma digits_value_nonneg: "\<forall>c \<in> set z. is_digit c \<Longrightarrow> 0 \<le> digits_value z"
proof (induction z rule: rev_induct)
  case Nil
  then show ?case by (simp add: digits_value_def)
next
  case (snoc c z)
  then show ?case by (simp add: digits_value_snoc digit_value_def is_digit_def)
qed

lemma parseInt_digits:
  assumes "z \<noteq> []" "\<forall>c \<in> set z. is_digit c" "rest = [] \<or> \<not> is_digit (hd rest)"
  shows "parseInt (z @ rest) = Some (to_double (digits_value z))"
proof -
  from assms obtain c cs where z: "z = c # cs" by (cases z) auto
  with assms have c: "is_digit c" by simp
  have tw: "takeWhile is_digit (z @ rest) = z"
  proof (cases rest)
    case Nil
    then show ?thesis using assms(2) by (simp add: takeWhile_eq_all_conv)
  next
    case (Cons r rs)
    with assms(3) have "\<not> is_digit r" by simp
    with assms(2) show ?thesis by (simp add: Cons takeWhile_tail)
  qed
  have dw: "dropWhile is_white_space (z @ rest) = z @ rest"
    using is_digit_not_special [OF c] by (simp add: z)
  have hdz: "hd (z @ rest) = c" "z @ rest \<noteq> []" "z \<noteq> []"
    by (simp_all add: z)
  show ?thesis
    unfolding parseInt_def dw Let_def using is_digit_not_special [OF c]
    by (simp add: hdz tw)
qed

lemma parseInt_signed_digits:
  assumes "z \<noteq> []" "\<forall>c \<in> set z. is_digit c" "rest = [] \<or> \<not> is_digit (hd rest)"
    "sg = of_char CHR ''-'' \<or> sg = of_char CHR ''+''"
  shows "parseInt (sg # z @ rest)
           = Some ((if sg = of_char CHR ''-'' then - 1 else 1) * to_double (digits_value z))"
proof -
  have tw: "takeWhile is_digit (z @ rest) = z"
  proof (cases rest)
    case Nil
    then show ?thesis using assms(2) by (simp add: takeWhile_eq_all_conv)
  next
    case (Cons r rs)
    with assms(3) have "\<not> is_digit r" by simp
    with assms(2) show ?thesis by (simp add: Cons takeWhile_tail)
  qed
  have ws: "\<not> is_white_space sg"
    using assms(4) by (auto simp: is_white_space_def)
  show ?thesis
    unfolding parseInt_def Let_def using assms(1,4) ws by (auto simp: tw)
qed

lemma dropWhile_white_space:
  "\<forall>c \<in> set ws. is_white_space c \<Longrightarrow> rest = [] \<or> \<not> is_white_space (hd rest) \<Longrightarrow>
   dropWhile is_white_space (ws @ rest) = rest"
  by (cases rest) (simp_all add: dropWhile_append1 dropWhile_append2)

lemma parseInt_skips_white_space:
  "\<forall>c \<in> set ws. is_white_space c \<Longrightarrow> parseInt (ws @ s) = parseInt s"
proof -
  assume ws: "\<forall>c \<in> set ws. is_white_space c"
  have "dropWhile is_white_space (ws @ s) = dropWhile is_white_space s"
    using ws by (induction ws) simp_all
  then show ?thesis by (simp add: parseInt_def)
qed

lemma parseInt_None:
  assumes "s = [] \<or> \<not> (is_white_space (hd s) \<or> is_digit (hd s)
             \<or> ((hd s = of_char CHR ''+'' \<or> hd s = of_char CHR ''-'')
                 \<and> tl s \<noteq> [] \<and> is_digit (hd (tl s))))"
  shows "parseInt s = None"
proof (cases s)
  case Nil
  then show ?thesis by (simp add: parseInt_def)
next
  case (Cons c cs)
  with assms have c: "\<not> is_white_space c" "\<not> is_digit c"
    "(c = of_char CHR ''+'' \<or> c = of_char CHR ''-'') \<longrightarrow> cs = [] \<or> \<not> is_digit (hd cs)"
    by auto
  have "takeWhile is_digit cs = []" if "cs = [] \<or> \<not> is_digit (hd cs)"
    using that by (cases cs) simp_all
  with c show ?thesis
    by (auto simp: parseInt_def Let_def Cons)
qed


lemma or_zero_Some: "or_zero (Some n) = n"
  by (simp add: or_zero_def)


subsection \<open>Printing a Number and reading it back\<close>

lemma candidate_sound:
  assumes "0 \<le> x" "candidate x p = Some s"
  shows "0 < s \<and> to_double (s * 10 ^ p) = x"
proof -
  have "0 \<le> x div 10 ^ p" using assms(1) by (simp add: pos_imp_zdiv_nonneg_iff)
  with assms(2) show ?thesis
    by (auto simp: candidate_def Let_def split: if_splits)
qed

lemma shortest_sound:
  assumes "0 < x" "to_double x = x"
  shows "shortest x d = (s, p) \<Longrightarrow> 0 < s \<and> to_double (s * 10 ^ p) = x"
proof (induction d)
  case 0
  with assms show ?case by simp
next
  case (Suc d)
  show ?case
  proof (cases "candidate x (Suc d)")
    case None
    with Suc show ?thesis by simp
  next
    case (Some s')
    with Suc.prems have "s = s'" "p = Suc d" by simp_all
    with candidate_sound [OF _ Some] assms(1) show ?thesis by simp
  qed
qed

lemma limit_gt_10_21: "(10::int) ^ 21 < double_limit"
  by (simp add: double_limit_def)

lemma positive_to_string_decimal:
  assumes "0 < x" "to_double x = x" "x < 10 ^ 21"
  shows "\<exists>v. 0 < v \<and> to_double v = x \<and> positive_to_string x = decimal v"
proof -
  obtain s p where sp: "shortest x (length (decimal x)) = (s, p)"
    by (cases "shortest x (length (decimal x))")
  from shortest_sound [OF assms(1,2) sp] have s: "0 < s" and t: "to_double (s * 10 ^ p) = x"
    by simp_all
  let ?v = "s * 10 ^ p"
  have v: "0 < ?v" using s by simp
  have small: "?v < 10 ^ 21"
  proof (rule ccontr)
    assume "\<not> ?v < 10 ^ 21"
    then have "10 ^ 21 \<le> to_double ?v" by (intro to_double_ge_10_21) simp
    with t assms(3) show False by simp
  qed
  have d: "decimal ?v = decimal s @ replicate p (digit_char 0)"
    by (rule decimal_times_power [OF s])
  have "length (decimal ?v) \<le> 21" by (rule length_decimal_bound [OF _ small]) simp
  then have n: "length (decimal s) + p \<le> 21" by (simp add: d)
  have "\<not> double_limit \<le> x" using assms(3) limit_gt_10_21 by simp
  then have "positive_to_string x = decimal ?v"
    using n by (simp add: positive_to_string_def sp d)
  with v t show ?thesis by blast
qed



lemma positive_to_string_safe:
  assumes "0 < x" "x \<le> 2 ^ 53"
  shows "positive_to_string x = decimal x"
proof (cases "x = 2 ^ 53")
  case True
  have "positive_to_string (2 ^ 53) = decimal (2 ^ 53)" by code_simp
  with True show ?thesis by simp
next
  case False
  with assms have lt: "x < 2 ^ 53" by simp
  then have t: "to_double x = x" by (rule to_double_small)
  have "x < 10 ^ 21" using lt by simp
  from positive_to_string_decimal [OF assms(1) t this] obtain v
    where v: "0 < v" "to_double v = x" "positive_to_string x = decimal v" by blast
  have "v < 2 ^ 53"
  proof (rule ccontr)
    assume "\<not> v < 2 ^ 53"
    then have "2 ^ 53 \<le> to_double v" by (intro to_double_ge_2_53) simp
    with v(2) lt show False by simp
  qed
  then have "to_double v = v" by (rule to_double_small)
  with v show ?thesis by simp
qed

lemma number_to_string_safe: "0 \<le> x \<Longrightarrow> x \<le> 2 ^ 53 \<Longrightarrow> number_to_string x = decimal x"
  by (cases "x = 0")
     (simp_all add: number_to_string_def positive_to_string_safe decimal_small str_def
        digit_char_def)

subsection \<open>The loop computes the padded lexicographic comparison\<close>

lemma or_zero_index: "or_zero (index v i) = (if i < length v then v ! i else 0)"
  by (simp add: or_zero_def index_def)

lemma length_pad_zero: "length v \<le> n \<Longrightarrow> length (pad_zero n v) = n"
  by (simp add: pad_zero_def)

lemma nth_pad_zero: "i < n \<Longrightarrow> pad_zero n v ! i = or_zero (index v i)"
  by (simp add: pad_zero_def or_zero_index nth_append)

lemma loop_lexicographic:
  "length v1 \<le> n \<Longrightarrow> length v2 \<le> n \<Longrightarrow> i \<le> n \<Longrightarrow>
   compareVersions_loop v1 v2 n i =
     lexicographic (drop i (pad_zero n v1)) (drop i (pad_zero n v2))"
proof (induction v1 v2 n i rule: compareVersions_loop.induct)
  case (1 v1 v2 n i)
  show ?case
  proof (cases "i < n")
    case False
    with 1(4) have "i = n" by simp
    then show ?thesis
      using 1(2,3) by (subst compareVersions_loop.simps) (simp add: length_pad_zero)
  next
    case True
    have d1: "drop i (pad_zero n v1) = or_zero (index v1 i) # drop (Suc i) (pad_zero n v1)"
      using True 1(2) by (simp add: Cons_nth_drop_Suc [symmetric] length_pad_zero nth_pad_zero)
    have d2: "drop i (pad_zero n v2) = or_zero (index v2 i) # drop (Suc i) (pad_zero n v2)"
      using True 1(3) by (simp add: Cons_nth_drop_Suc [symmetric] length_pad_zero nth_pad_zero)
    show ?thesis
    proof (cases "or_zero (index v1 i) = or_zero (index v2 i)")
      case False
      then show ?thesis
        using True by (subst compareVersions_loop.simps) (auto simp: d1 d2 Let_def)
    next
      case eq: True
      have "compareVersions_loop v1 v2 n (i + 1) =
            lexicographic (drop (i + 1) (pad_zero n v1)) (drop (i + 1) (pad_zero n v2))"
        using 1(1) [OF True refl refl] eq 1(2,3) True by simp
      then show ?thesis
        using True eq by (subst compareVersions_loop.simps) (simp add: d1 d2 Let_def)
    qed
  qed
qed

lemma compareVersions_spec: "compareVersions v1 v2 = spec_compare v1 v2"
  unfolding compareVersions_def spec_compare_def Let_def
  by (subst loop_lexicographic) simp_all

lemma lexicographic_antisym:
  "length xs = length ys \<Longrightarrow> lexicographic xs ys = - lexicographic ys xs"
  by (induction xs ys rule: list_induct2) auto

lemma lexicographic_refl: "lexicographic xs xs = 0"
  by (induction xs) auto





lemma compareVersions_antisym: "compareVersions v1 v2 = - compareVersions v2 v1"
  unfolding compareVersions_spec spec_compare_def
  by (subst lexicographic_antisym) (simp_all add: length_pad_zero max.commute)

lemma compareVersions_refl: "compareVersions v v = 0"
  by (simp add: compareVersions_spec spec_compare_def lexicographic_refl)


subsection \<open>Splitting and joining\<close>

lemma js_split_nonempty: "js_split sep s \<noteq> []"
  by (induction s) (auto split: list.splits)

lemma js_split_no_sep: "sep \<notin> set s \<Longrightarrow> js_split sep s = [s]"
  by (induction s) auto

lemma js_split_append:
  "sep \<notin> set x \<Longrightarrow> js_split sep (x @ sep # rest) = x # js_split sep rest"
  by (induction x) auto

lemma js_split_join:
  "xs \<noteq> [] \<Longrightarrow> \<forall>x \<in> set xs. sep \<notin> set x \<Longrightarrow> js_split sep (join [sep] xs) = xs"
proof (induction xs rule: induct_list012)
  case 1
  then show ?case by simp
next
  case (2 x)
  then show ?case by (simp add: js_split_no_sep)
next
  case (3 x y ys)
  then show ?case by (simp add: js_split_append)
qed

lemma length_js_split: "length (js_split sep s) = Suc (count_list s sep)"
  by (induction s) (auto split: list.splits simp: js_split_nonempty)

subsection \<open>Versions printed and read back\<close>



lemma parseVersion_safe:
  assumes "safe_version s"
  shows "parseVersion (JString s) = Inr (spec_components s)"
proof -
  have "or_zero (parseInt part) = digits_value part"
    if "part \<in> set (js_split (of_char CHR ''.'') s)" for part
  proof -
    from assms that have v: "valid_numeral part" and b: "digits_value part \<le> 2 ^ 53"
      by (auto simp: safe_version_def valid_version_def spec_components_def)
    from v have "parseInt (part @ []) = Some (to_double (digits_value part))"
      by (intro parseInt_digits) (simp_all add: valid_numeral_def)
    with b show ?thesis by (simp add: to_double_le_2_53 or_zero_Some)
  qed
  then show ?thesis
    by (simp add: parseVersion_def spec_components_def)
qed

lemma valid_numeral_decimal: "0 \<le> n \<Longrightarrow> valid_numeral (decimal n)"
  by (simp add: valid_numeral_def decimal_nonempty decimal_digits)

lemma versionToString_safe:
  assumes "parts \<noteq> []" "\<forall>x \<in> set parts. 0 \<le> x \<and> x \<le> 2 ^ 53"
  shows "valid_version (versionToString parts) \<and> spec_components (versionToString parts) = parts"
proof -
  have eq: "map number_to_string parts = map decimal parts"
    using assms(2) by (simp add: number_to_string_safe)
  have nodot: "\<forall>x \<in> set (map decimal parts). of_char CHR ''.'' \<notin> set x"
    using assms(2) decimal_digits is_digit_not_special by fastforce
  have "js_split (of_char CHR ''.'') (versionToString parts) = map decimal parts"
    unfolding versionToString_def str_def eq
    using js_split_join [of "map decimal parts" "of_char CHR ''.''"] assms(1) nodot by simp
  then show ?thesis
    using assms(2)
    by (simp add: valid_version_def spec_components_def valid_numeral_decimal
        digits_value_decimal map_idI)
qed

lemma spec_components_nonneg: "valid_version s \<Longrightarrow> \<forall>n \<in> set (spec_components s). 0 \<le> n"
  by (auto simp: valid_version_def spec_components_def valid_numeral_def digits_value_nonneg)

subsection \<open>Running the two functions on parsed arguments\<close>

lemma parseVersion_JString:
  "parseVersion (JString s)
     = Inr (map (\<lambda>part. or_zero (parseInt part)) (js_split (of_char CHR ''.'') s))"
  by (simp add: parseVersion_def)

lemma parseVersion_nonempty: "parseVersion a = Inr ps \<Longrightarrow> ps \<noteq> []"
  by (cases a) (auto simp: parseVersion_def js_split_nonempty)

lemma isVersionInRange_parsed:
  assumes "parseVersion version = Inr v" "parseVersion minVersion = Inr lo"
    "parseVersion maxVersion = Inr hi"
  shows "isVersionInRange version minVersion maxVersion =
           (Inr (compareVersions v lo \<ge> 0 \<and> compareVersions v hi \<le> 0), [])"
  using assms
  by (simp add: isVersionInRange_def isVersionInRange_try_def try_catch_def bind_result_def)

lemma negotiateVersion_parsed:
  assumes "parseVersion a = Inr clientMin" "parseVersion b = Inr clientMax"
    "parseVersion c = Inr serverMin" "parseVersion d = Inr serverMax"
  shows "negotiateVersion a b c d =
           ((if compareVersions (overlapMin clientMin serverMin) (overlapMax clientMax serverMax) \<le> 0
             then Inr (Some (versionToString (overlapMax clientMax serverMax)))
             else Inr None), [])"
  using assms
  by (simp add: negotiateVersion_def negotiateVersion_try_def try_catch_def bind_result_def)




subsection \<open>The overlap bounds\<close>


lemma overlapMin_upper:
  "compareVersions a (overlapMin a b) \<le> 0 \<and> compareVersions b (overlapMin a b) \<le> 0"
  using compareVersions_antisym [of a b]
  by (auto simp: overlapMin_def compareVersions_refl)

lemma overlapMax_lower:
  "compareVersions (overlapMax a b) a \<le> 0 \<and> compareVersions (overlapMax a b) b \<le> 0"
  using compareVersions_antisym [of a b]
  by (auto simp: overlapMax_def compareVersions_refl)

lemma overlapMin_cases: "overlapMin a b = a \<or> overlapMin a b = b"
  by (simp add: overlapMin_def)

lemma overlapMax_cases: "overlapMax a b = a \<or> overlapMax a b = b"
  by (simp add: overlapMax_def)



section \<open>Claims about the version negotiator\<close>

lemma overlapMin_spec:
  "(overlapMin a b = a \<or> overlapMin a b = b)
   \<and> spec_compare a (overlapMin a b) \<le> 0 \<and> spec_compare b (overlapMin a b) \<le> 0"
  using overlapMin_cases [of a b] overlapMin_upper [of a b]
  by (simp add: compareVersions_spec)

lemma overlapMax_spec:
  "(overlapMax a b = a \<or> overlapMax a b = b)
   \<and> spec_compare (overlapMax a b) a \<le> 0 \<and> spec_compare (overlapMax a b) b \<le> 0"
  using overlapMax_cases [of a b] overlapMax_lower [of a b]
  by (simp add: compareVersions_spec)

lemma safe_version_bounds:
  "safe_version s \<Longrightarrow> \<forall>x \<in> set (spec_components s). 0 \<le> x \<and> x \<le> 2 ^ 53"
  using spec_components_nonneg [of s] by (auto simp: safe_version_def)

text \<open>
  Claim C1, as amended. On string arguments \<^verbatim>\<open>negotiateVersion\<close> reads the four versions
  with \<^verbatim>\<open>parseVersion\<close> and takes as \<open>overlapMin\<close> the greater of the two minimum
  versions and as \<open>overlapMax\<close> the smaller of the two maximum versions under the padded
  lexicographic comparator of the specification: each is one of its two arguments and
  bounds both of them. Whenever \<open>overlapMin \<le> overlapMax\<close> under that comparator, the
  function returns \<open>overlapMax\<close>, printed with \<^verbatim>\<open>versionToString\<close>, and logs nothing. For
  version strings whose components are numerals of at most \<open>2 ^ 53\<close>, the versions read
  are the numeric components of the strings themselves, and the string returned is a
  version string whose components are exactly \<open>overlapMax\<close>. In particular
  \<^verbatim>\<open>negotiateVersion("1.0","1.0","1.0","1.0") == "1.0"\<close> and
  \<^verbatim>\<open>negotiateVersion("1.0","2.0","1.5","3.0") == "2.0"\<close>.
\<close>

theorem negotiateVersion_newest_common:
  "(\<exists>clientMin clientMax serverMin serverMax.
       parseVersion (JString clientMinVersion) = Inr clientMin
     \<and> parseVersion (JString clientMaxVersion) = Inr clientMax
     \<and> parseVersion (JString serverMinVersion) = Inr serverMin
     \<and> parseVersion (JString serverMaxVersion) = Inr serverMax
     \<and> (overlapMin clientMin serverMin = clientMin \<or> overlapMin clientMin serverMin = serverMin)
     \<and> spec_compare clientMin (overlapMin clientMin serverMin) \<le> 0
     \<and> spec_compare serverMin (overlapMin clientMin serverMin) \<le> 0
     \<and> (overlapMax clientMax serverMax = clientMax \<or> overlapMax clientMax serverMax = serverMax)
     \<and> spec_compare (overlapMax clientMax serverMax) clientMax \<le> 0
     \<and> spec_compare (overlapMax clientMax serverMax) serverMax \<le> 0
     \<and> (spec_compare (overlapMin clientMin serverMin) (overlapMax clientMax serverMax) \<le> 0 \<longrightarrow>
          negotiateVersion (JString clientMinVersion) (JString clientMaxVersion)
              (JString serverMinVersion) (JString serverMaxVersion)
            = (Inr (Some (versionToString (overlapMax clientMax serverMax))), []))
     \<and> (safe_version clientMinVersion \<and> safe_version clientMaxVersion
          \<and> safe_version serverMinVersion \<and> safe_version serverMaxVersion \<longrightarrow>
            clientMin = spec_components clientMinVersion
          \<and> clientMax = spec_components clientMaxVersion
          \<and> serverMin = spec_components serverMinVersion
          \<and> serverMax = spec_components serverMaxVersion
          \<and> valid_version (versionToString (overlapMax clientMax serverMax))
          \<and> spec_components (versionToString (overlapMax clientMax serverMax))
              = overlapMax clientMax serverMax))
   \<and> negotiateVersion (JString (str ''1.0'')) (JString (str ''1.0''))
         (JString (str ''1.0'')) (JString (str ''1.0''))
       = (Inr (Some (str ''1.0'')), [])
   \<and> negotiateVersion (JString (str ''1.0'')) (JString (str ''2.0''))
         (JString (str ''1.5'')) (JString (str ''3.0''))
       = (Inr (Some (str ''2.0'')), [])"
proof -
  obtain clientMin clientMax serverMin serverMax where
    p: "parseVersion (JString clientMinVersion) = Inr clientMin"
      "parseVersion (JString clientMaxVersion) = Inr clientMax"
      "parseVersion (JString serverMinVersion) = Inr serverMin"
      "parseVersion (JString serverMaxVersion) = Inr serverMax"
    by (simp add: parseVersion_def)
  let ?lo = "overlapMin clientMin serverMin"
  let ?hi = "overlapMax clientMax serverMax"
  have run: "spec_compare ?lo ?hi \<le> 0 \<longrightarrow>
      negotiateVersion (JString clientMinVersion) (JString clientMaxVersion)
          (JString serverMinVersion) (JString serverMaxVersion)
        = (Inr (Some (versionToString ?hi)), [])"
    using negotiateVersion_parsed [OF p] by (simp add: compareVersions_spec)
  have safe: "clientMin = spec_components clientMinVersion
          \<and> clientMax = spec_components clientMaxVersion
          \<and> serverMin = spec_components serverMinVersion
          \<and> serverMax = spec_components serverMaxVersion
          \<and> valid_version (versionToString ?hi)
          \<and> spec_components (versionToString ?hi) = ?hi"
    if s: "safe_version clientMinVersion \<and> safe_version clientMaxVersion
          \<and> safe_version serverMinVersion \<and> safe_version serverMaxVersion"
  proof -
    from s p have e: "clientMin = spec_components clientMinVersion"
      "clientMax = spec_components clientMaxVersion"
      "serverMin = spec_components serverMinVersion"
      "serverMax = spec_components serverMaxVersion"
      by (simp_all add: parseVersion_safe)
    have ne: "?hi \<noteq> []"
      using overlapMax_cases [of clientMax serverMax]
        parseVersion_nonempty [OF p(2)] parseVersion_nonempty [OF p(4)] by auto
    have b: "\<forall>x \<in> set ?hi. 0 \<le> x \<and> x \<le> 2 ^ 53"
      using overlapMax_cases [of clientMax serverMax] s e
        safe_version_bounds [of clientMaxVersion] safe_version_bounds [of serverMaxVersion]
      by auto
    from versionToString_safe [OF ne b] e show ?thesis by simp
  qed
  have ex1: "negotiateVersion (JString (str ''1.0'')) (JString (str ''1.0''))
         (JString (str ''1.0'')) (JString (str ''1.0'')) = (Inr (Some (str ''1.0'')), [])"
    by code_simp
  have ex2: "negotiateVersion (JString (str ''1.0'')) (JString (str ''2.0''))
         (JString (str ''1.5'')) (JString (str ''3.0'')) = (Inr (Some (str ''2.0'')), [])"
    by code_simp
  from p run safe ex1 ex2 overlapMin_spec [of clientMin serverMin]
    overlapMax_spec [of clientMax serverMax]
  show ?thesis by blast
qed

theorem negotiateVersion_newest_common_witness:
  "safe_version (str ''1.0'') \<and> safe_version (str ''2.0'')
   \<and> safe_version (str ''1.5'') \<and> safe_version (str ''3.0'')
   \<and> spec_components (str ''1.0'') = [1, 0] \<and> spec_components (str ''2.0'') = [2, 0]
   \<and> spec_components (str ''1.5'') = [1, 5] \<and> spec_components (str ''3.0'') = [3, 0]
   \<and> spec_compare (overlapMin [1, 0] [1, 5]) (overlapMax [2, 0] [3, 0]) \<le> 0
   \<and> negotiateVersion (JString (str ''1.0'')) (JString (str ''2.0''))
         (JString (str ''1.5'')) (JString (str ''3.0''))
       = (Inr (Some (versionToString (overlapMax [2, 0] [3, 0]))), [])
   \<and> valid_version (versionToString (overlapMax [2, 0] [3, 0]))
   \<and> spec_components (versionToString (overlapMax [2, 0] [3, 0])) = overlapMax [2, 0] [3, 0]"
proof -
  have s: "safe_version (str ''1.0'')" "safe_version (str ''2.0'')"
    "safe_version (str ''1.5'')" "safe_version (str ''3.0'')"
    by code_simp+
  have c: "spec_components (str ''1.0'') = [1, 0]" "spec_components (str ''2.0'') = [2, 0]"
    "spec_components (str ''1.5'') = [1, 5]" "spec_components (str ''3.0'') = [3, 0]"
    by code_simp+
  have o: "spec_compare (overlapMin [1, 0] [1, 5]) (overlapMax [2, 0] [3, 0]) \<le> 0"
    by code_simp
  from negotiateVersion_newest_common
    [of "str ''1.0''" "str ''2.0''" "str ''1.5''" "str ''3.0''"]
  obtain clientMin clientMax serverMin serverMax where
    r: "spec_compare (overlapMin clientMin serverMin) (overlapMax clientMax serverMax) \<le> 0 \<longrightarrow>
          negotiateVersion (JString (str ''1.0'')) (JString (str ''2.0''))
              (JString (str ''1.5'')) (JString (str ''3.0''))
            = (Inr (Some (versionToString (overlapMax clientMax serverMax))), [])"
    and e: "safe_version (str ''1.0'') \<and> safe_version (str ''2.0'')
          \<and> safe_version (str ''1.5'') \<and> safe_version (str ''3.0'') \<longrightarrow>
            clientMin = spec_components (str ''1.0'')
          \<and> clientMax = spec_components (str ''2.0'')
          \<and> serverMin = spec_components (str ''1.5'')
          \<and> serverMax = spec_components (str ''3.0'')
          \<and> valid_version (versionToString (overlapMax clientMax serverMax))
          \<and> spec_components (versionToString (overlapMax clientMax serverMax))
              = overlapMax clientMax serverMax"
    by blast
  from e s have all: "clientMin = spec_components (str ''1.0'')
          \<and> clientMax = spec_components (str ''2.0'')
          \<and> serverMin = spec_components (str ''1.5'')
          \<and> serverMax = spec_components (str ''3.0'')
          \<and> valid_version (versionToString (overlapMax clientMax serverMax))
          \<and> spec_components (versionToString (overlapMax clientMax serverMax))
              = overlapMax clientMax serverMax"
    by blast
  with c have eq: "clientMin = [1, 0]" "clientMax = [2, 0]" "serverMin = [1, 5]"
    "serverMax = [3, 0]"
    by simp_all
  from all have v: "valid_version (versionToString (overlapMax clientMax serverMax))"
      "spec_components (versionToString (overlapMax clientMax serverMax))
         = overlapMax clientMax serverMax"
    by blast+
  from r o eq have n: "negotiateVersion (JString (str ''1.0'')) (JString (str ''2.0''))
         (JString (str ''1.5'')) (JString (str ''3.0''))
       = (Inr (Some (versionToString (overlapMax [2, 0] [3, 0]))), [])"
    by simp
  from s c o n v eq show ?thesis by simp
qed

theorem negotiateVersion_rounds_counterexample:
  "valid_version (str ''9007199254740993'')
   \<and> spec_components (str ''9007199254740993'') = [9007199254740993]
   \<and> negotiateVersion (JString (str ''9007199254740993'')) (JString (str ''9007199254740993''))
        (JString (str ''9007199254740993'')) (JString (str ''9007199254740993''))
       = (Inr (Some (str ''9007199254740992'')), [])
   \<and> spec_components (str ''9007199254740992'') = [9007199254740992]
   \<and> spec_compare [9007199254740992] [9007199254740993] = - 1"
  by code_simp

text \<open>
  Claim C3, as amended. For all strings, \<^verbatim>\<open>isVersionInRange(version, min, max)\<close> returns
  true exactly when the components that \<^verbatim>\<open>parseVersion\<close> reads from \<open>version\<close> compare
  \<open>\<ge>\<close> those read from \<open>min\<close> and \<open>\<le>\<close> those read from \<open>max\<close> under the padded
  lexicographic comparator of the specification, both bounds inclusive. For version
  strings whose components are numerals of at most \<open>2 ^ 53\<close> these are the numeric
  components of the strings themselves. In particular
  \<^verbatim>\<open>isVersionInRange("1.2","1.0","2.0")\<close> is true, \<^verbatim>\<open>isVersionInRange("0.9","1.0","2.0")\<close> is
  false and \<^verbatim>\<open>isVersionInRange("2.0","1.0","2.0")\<close> is true.
\<close>

theorem isVersionInRange_iff:
  "(\<exists>v lo hi.
       parseVersion (JString version) = Inr v
     \<and> parseVersion (JString minVersion) = Inr lo
     \<and> parseVersion (JString maxVersion) = Inr hi
     \<and> isVersionInRange (JString version) (JString minVersion) (JString maxVersion)
         = (Inr (spec_compare v lo \<ge> 0 \<and> spec_compare v hi \<le> 0), []))
   \<and> (safe_version version \<and> safe_version minVersion \<and> safe_version maxVersion \<longrightarrow>
        isVersionInRange (JString version) (JString minVersion) (JString maxVersion)
          = (Inr (spec_compare (spec_components version) (spec_components minVersion) \<ge> 0
                  \<and> spec_compare (spec_components version) (spec_components maxVersion) \<le> 0),
             []))
   \<and> isVersionInRange (JString (str ''1.2'')) (JString (str ''1.0'')) (JString (str ''2.0''))
       = (Inr True, [])
   \<and> isVersionInRange (JString (str ''0.9'')) (JString (str ''1.0'')) (JString (str ''2.0''))
       = (Inr False, [])
   \<and> isVersionInRange (JString (str ''2.0'')) (JString (str ''1.0'')) (JString (str ''2.0''))
       = (Inr True, [])"
proof -
  obtain v lo hi where
    p: "parseVersion (JString version) = Inr v" "parseVersion (JString minVersion) = Inr lo"
      "parseVersion (JString maxVersion) = Inr hi"
    by (simp add: parseVersion_def)
  have r: "isVersionInRange (JString version) (JString minVersion) (JString maxVersion)
         = (Inr (spec_compare v lo \<ge> 0 \<and> spec_compare v hi \<le> 0), [])"
    using isVersionInRange_parsed [OF p] by (simp add: compareVersions_spec)
  have s: "isVersionInRange (JString version) (JString minVersion) (JString maxVersion)
          = (Inr (spec_compare (spec_components version) (spec_components minVersion) \<ge> 0
                  \<and> spec_compare (spec_components version) (spec_components maxVersion) \<le> 0),
             [])"
    if "safe_version version \<and> safe_version minVersion \<and> safe_version maxVersion"
    using that p r by (simp add: parseVersion_safe)
  have e1: "isVersionInRange (JString (str ''1.2'')) (JString (str ''1.0'')) (JString (str ''2.0''))
       = (Inr True, [])" by code_simp
  have e2: "isVersionInRange (JString (str ''0.9'')) (JString (str ''1.0'')) (JString (str ''2.0''))
       = (Inr False, [])" by code_simp
  have e3: "isVersionInRange (JString (str ''2.0'')) (JString (str ''1.0'')) (JString (str ''2.0''))
       = (Inr True, [])" by code_simp
  from p r s e1 e2 e3 show ?thesis by blast
qed

theorem isVersionInRange_iff_witness:
  "safe_version (str ''1.2'') \<and> safe_version (str ''1.0'') \<and> safe_version (str ''2.0'')
   \<and> spec_components (str ''1.2'') = [1, 2] \<and> spec_components (str ''1.0'') = [1, 0]
   \<and> spec_components (str ''2.0'') = [2, 0]
   \<and> isVersionInRange (JString (str ''1.2'')) (JString (str ''1.0'')) (JString (str ''2.0''))
       = (Inr (spec_compare [1, 2] [1, 0] \<ge> 0 \<and> spec_compare [1, 2] [2, 0] \<le> 0), [])"
proof -
  have s: "safe_version (str ''1.2'')" "safe_version (str ''1.0'')" "safe_version (str ''2.0'')"
    by code_simp+
  have c: "spec_components (str ''1.2'') = [1, 2]" "spec_components (str ''1.0'') = [1, 0]"
    "spec_components (str ''2.0'') = [2, 0]"
    by code_simp+
  from isVersionInRange_iff [of "str ''1.2''" "str ''1.0''" "str ''2.0''"] s
  have "isVersionInRange (JString (str ''1.2'')) (JString (str ''1.0'')) (JString (str ''2.0''))
          = (Inr (spec_compare (spec_components (str ''1.2'')) (spec_components (str ''1.0'')) \<ge> 0
                  \<and> spec_compare (spec_components (str ''1.2'')) (spec_components (str ''2.0'')) \<le> 0),
             [])"
    by blast
  with s c show ?thesis by simp
qed

theorem isVersionInRange_rounds_counterexample:
  "valid_version (str ''9007199254740993'') \<and> valid_version (str ''9007199254740992'')
   \<and> isVersionInRange (JString (str ''9007199254740993'')) (JString (str ''9007199254740992''))
        (JString (str ''9007199254740992'')) = (Inr True, [])
   \<and> spec_compare (spec_components (str ''9007199254740993''))
        (spec_components (str ''9007199254740992'')) = 1"
  by code_simp



text \<open>
  Claim C4. The comparator is the strictly lexicographic comparison, left to right, of the
  numeric components, the shorter version padded with \<open>0\<close> components (\<open>spec_compare\<close>), so
  \<^verbatim>\<open>"1"\<close> compares equal to \<^verbatim>\<open>"1.0"\<close>; for all parsed versions
  \<open>compare(v1, v2) = - compare(v2, v1)\<close> and \<open>compare(v1, v1) = 0\<close>.
\<close>

theorem compareVersions_lexicographic_antisymmetric:
  "compareVersions v1 v2 = spec_compare v1 v2
   \<and> compareVersions v1 v2 = - compareVersions v2 v1
   \<and> compareVersions v1 v1 = 0
   \<and> parseVersion (JString (str ''1'')) = Inr [1]
   \<and> parseVersion (JString (str ''1.0'')) = Inr [1, 0]
   \<and> compareVersions [1] [1, 0] = 0"
proof -
  have "parseVersion (JString (str ''1'')) = Inr [1]"
    "parseVersion (JString (str ''1.0'')) = Inr [1, 0]"
    "compareVersions [1] [1, 0] = 0"
    by code_simp+
  then show ?thesis
    using compareVersions_spec [of v1 v2] compareVersions_antisym [of v1 v2]
      compareVersions_refl [of v1]
    by simp
qed

lemma parseInt_no_numeral:
  assumes "\<forall>c \<in> set ws. is_white_space c"
    and "sg = [] \<or> sg = str ''+'' \<or> sg = str ''-''"
    and "rest = [] \<or> \<not> is_digit (hd rest)"
    and "sg = [] \<longrightarrow> rest = [] \<or> \<not> (is_white_space (hd rest)
           \<or> hd rest = of_char CHR ''+'' \<or> hd rest = of_char CHR ''-'')"
  shows "parseInt (ws @ sg @ rest) = None"
proof -
  have "parseInt (sg @ rest) = None"
  proof (rule parseInt_None)
    show "sg @ rest = [] \<or> \<not> (is_white_space (hd (sg @ rest)) \<or> is_digit (hd (sg @ rest))
             \<or> ((hd (sg @ rest) = of_char CHR ''+'' \<or> hd (sg @ rest) = of_char CHR ''-'')
                 \<and> tl (sg @ rest) \<noteq> [] \<and> is_digit (hd (tl (sg @ rest)))))"
      using assms(2-4)
      by (cases rest) (auto simp: str_def is_white_space_def is_digit_def)
  qed
  with parseInt_skips_white_space [OF assms(1)] show ?thesis by simp
qed

lemma parseInt_numeral:
  assumes "\<forall>c \<in> set ws. is_white_space c"
    and "sg = [] \<or> sg = str ''+'' \<or> sg = str ''-''"
    and "valid_numeral z"
    and "rest = [] \<or> \<not> is_digit (hd rest)"
  shows "parseInt (ws @ sg @ z @ rest)
           = Some (if sg = str ''-'' then - to_double (digits_value z)
                   else to_double (digits_value z))"
proof -
  from assms(3) have z: "z \<noteq> []" "\<forall>c \<in> set z. is_digit c"
    by (simp_all add: valid_numeral_def)
  have "parseInt (sg @ z @ rest)
           = Some (if sg = str ''-'' then - to_double (digits_value z)
                   else to_double (digits_value z))"
    using assms(2) parseInt_digits [OF z assms(4)]
      parseInt_signed_digits [OF z assms(4), of "of_char CHR ''+''"]
      parseInt_signed_digits [OF z assms(4), of "of_char CHR ''-''"]
    by (auto simp: str_def)
  with parseInt_skips_white_space [OF assms(1)] show ?thesis by simp
qed

text \<open>
  Claim C5, as amended. Parsing a version string never throws and yields one number for
  each dot-separated component (one more than the string has dots). A component is read
  by \<^verbatim>\<open>parseInt\<close>: after any leading white space and one optional sign, a component that
  does not go on with a digit contributes \<open>0\<close>, and a component that goes on with a
  numeral contributes the Number nearest to the signed value of that numeral, whatever
  follows the numeral; up to \<open>2 ^ 53\<close> that Number is the value itself. So \<^verbatim>\<open>"1.x"\<close>
  parses the same as \<^verbatim>\<open>"1.0"\<close>.
\<close>

theorem parseVersion_permissive:
  "(\<exists>parts. parseVersion (JString s) = Inr parts
        \<and> length parts = Suc (count_list s (of_char CHR ''.''))
        \<and> parts = map (\<lambda>part. or_zero (parseInt part)) (js_split (of_char CHR ''.'') s))
   \<and> ((\<forall>c \<in> set ws. is_white_space c) \<and> (sg = [] \<or> sg = str ''+'' \<or> sg = str ''-'')
        \<and> (rest = [] \<or> \<not> is_digit (hd rest))
        \<and> (sg = [] \<longrightarrow> rest = [] \<or> \<not> (is_white_space (hd rest)
              \<or> hd rest = of_char CHR ''+'' \<or> hd rest = of_char CHR ''-''))
        \<longrightarrow> or_zero (parseInt (ws @ sg @ rest)) = 0)
   \<and> ((\<forall>c \<in> set ws. is_white_space c) \<and> (sg = [] \<or> sg = str ''+'' \<or> sg = str ''-'')
        \<and> valid_numeral z \<and> (tail = [] \<or> \<not> is_digit (hd tail))
        \<longrightarrow> or_zero (parseInt (ws @ sg @ z @ tail))
              = (if sg = str ''-'' then - to_double (digits_value z)
                 else to_double (digits_value z)))
   \<and> (digits_value z \<le> 2 ^ 53 \<longrightarrow> to_double (digits_value z) = digits_value z)
   \<and> parseVersion (JString (str ''1.x'')) = Inr [1, 0]
   \<and> parseVersion (JString (str ''1.0'')) = Inr [1, 0]"
proof -
  have a: "\<exists>parts. parseVersion (JString s) = Inr parts
        \<and> length parts = Suc (count_list s (of_char CHR ''.''))
        \<and> parts = map (\<lambda>part. or_zero (parseInt part)) (js_split (of_char CHR ''.'') s)"
    by (simp add: parseVersion_def length_js_split)
  have b: "or_zero (parseInt (ws @ sg @ rest)) = 0"
    if "(\<forall>c \<in> set ws. is_white_space c) \<and> (sg = [] \<or> sg = str ''+'' \<or> sg = str ''-'')
        \<and> (rest = [] \<or> \<not> is_digit (hd rest))
        \<and> (sg = [] \<longrightarrow> rest = [] \<or> \<not> (is_white_space (hd rest)
              \<or> hd rest = of_char CHR ''+'' \<or> hd rest = of_char CHR ''-''))"
    using parseInt_no_numeral [of ws sg rest] that by (simp add: or_zero_def)
  have c: "or_zero (parseInt (ws @ sg @ z @ tail))
              = (if sg = str ''-'' then - to_double (digits_value z)
                 else to_double (digits_value z))"
    if "(\<forall>c \<in> set ws. is_white_space c) \<and> (sg = [] \<or> sg = str ''+'' \<or> sg = str ''-'')
        \<and> valid_numeral z \<and> (tail = [] \<or> \<not> is_digit (hd tail))"
    using parseInt_numeral [of ws sg z tail] that by (simp add: or_zero_Some)
  have d: "to_double (digits_value z) = digits_value z" if "digits_value z \<le> 2 ^ 53"
    using that by (rule to_double_le_2_53)
  have e: "parseVersion (JString (str ''1.x'')) = Inr [1, 0]"
    "parseVersion (JString (str ''1.0'')) = Inr [1, 0]"
    by code_simp+
  from a b c d e show ?thesis by blast
qed

theorem parseVersion_permissive_witness:
  "parseVersion (JString (str ''1.2x. -x. -3y'')) = Inr [1, 2, 0, - 3]
   \<and> length [1, 2, 0, - 3 :: int] = Suc (count_list (str ''1.2x. -x. -3y'') (of_char CHR ''.''))
   \<and> is_white_space (of_char CHR '' '') \<and> \<not> is_digit (hd (str ''x''))
   \<and> or_zero (parseInt (str '' '' @ str ''-'' @ str ''x'')) = 0
   \<and> valid_numeral (str ''3'') \<and> \<not> is_digit (hd (str ''y''))
   \<and> digits_value (str ''3'') = 3
   \<and> or_zero (parseInt (str '' '' @ str ''-'' @ str ''3'' @ str ''y'')) = - 3"
proof -
  have p: "parseVersion (JString (str ''1.2x. -x. -3y'')) = Inr [1, 2, 0, - 3]" by code_simp
  have l: "length [1, 2, 0, - 3 :: int]
      = Suc (count_list (str ''1.2x. -x. -3y'') (of_char CHR ''.''))" by code_simp
  have w: "is_white_space (of_char CHR '' '')" by code_simp
  have ws: "\<forall>c \<in> set (str '' ''). is_white_space c" by code_simp
  have x: "\<not> is_digit (hd (str ''x''))" by code_simp
  have v: "valid_numeral (str ''3'')" by code_simp
  have y: "\<not> is_digit (hd (str ''y''))" by code_simp
  have dv: "digits_value (str ''3'') = 3" by code_simp
  have sg: "str ''-'' \<noteq> []" by code_simp
  have small: "digits_value (str ''3'') \<le> 2 ^ 53" by code_simp
  note inst = parseVersion_permissive
    [of "str ''1.2x. -x. -3y''" "str '' ''" "str ''-''" "str ''x''" "str ''3''" "str ''y''"]
  from inst ws x sg have r1: "or_zero (parseInt (str '' '' @ str ''-'' @ str ''x'')) = 0"
    by blast
  from inst ws v y have "or_zero (parseInt (str '' '' @ str ''-'' @ str ''3'' @ str ''y''))
      = - to_double (digits_value (str ''3''))"
    by simp
  moreover from inst small have "to_double (digits_value (str ''3'')) = digits_value (str ''3'')"
    by blast
  ultimately have r2: "or_zero (parseInt (str '' '' @ str ''-'' @ str ''3'' @ str ''y'')) = - 3"
    using dv by simp
  from p l w x r1 v y dv r2 show ?thesis by blast
qed

theorem parseVersion_invalid_component_counterexample:
  "\<not> valid_numeral (str ''2x'')
   \<and> js_split (of_char CHR ''.'') (str ''1.2x'') = [str ''1'', str ''2x'']
   \<and> or_zero (parseInt (str ''2x'')) = 2
   \<and> parseVersion (JString (str ''1.2x'')) = Inr [1, 2]
   \<and> parseVersion (JString (str ''1.2x'')) \<noteq> parseVersion (JString (str ''1.0''))
   \<and> \<not> valid_numeral (str ''-3'')
   \<and> parseVersion (JString (str ''1.-3'')) = Inr [1, - 3]"
  by code_simp




subsection \<open>The step relations and the functions agree\<close>

lemma scan_sound: "scan P s i j \<Longrightarrow> j = i + length (takeWhile P (drop i s))"
proof (induction rule: scan.induct)
  case (scan_stop i)
  show ?case
  proof (cases "i < length s")
    case True
    with scan_stop have "\<not> P (s ! i)" by simp
    with True show ?thesis by (simp add: Cons_nth_drop_Suc [symmetric])
  next
    case False
    then show ?thesis by simp
  qed
next
  case (scan_step i j)
  then show ?case
    by (simp add: Cons_nth_drop_Suc [symmetric])
qed

lemma scan_complete: "scan P s i (i + length (takeWhile P (drop i s)))"
proof (induction "length s - i" arbitrary: i)
  case 0
  then show ?case by (simp add: scan_stop)
next
  case (Suc n)
  then have i: "i < length s" by simp
  show ?case
  proof (cases "P (s ! i)")
    case False
    with i show ?thesis
      by (simp add: Cons_nth_drop_Suc [symmetric] scan_stop)
  next
    case True
    from Suc(2) have "n = length s - Suc i" by simp
    from Suc(1) [OF this] have "scan P s (Suc i) (Suc i + length (takeWhile P (drop (Suc i) s)))" .
    with i True show ?thesis
      by (simp add: Cons_nth_drop_Suc [symmetric] scan_step)
  qed
qed

lemma scan_iff: "scan P s i j \<longleftrightarrow> j = i + length (takeWhile P (drop i s))"
  using scan_sound scan_complete by blast

lemma drop_takeWhile_length: "drop (length (takeWhile P xs)) xs = dropWhile P xs"
  by (induction xs) simp_all

lemma take_takeWhile_length: "take (length (takeWhile P xs)) xs = takeWhile P xs"
  by (induction xs) simp_all

lemma drop_after_sign:
  "drop (after_sign s i) s =
     (if drop i s \<noteq> [] \<and> (hd (drop i s) = of_char CHR ''+'' \<or> hd (drop i s) = of_char CHR ''-'')
      then tl (drop i s) else drop i s)"
  by (auto simp: after_sign_def hd_drop_conv_nth drop_Suc tl_drop)

lemma sign_at_drop:
  "sign_at s i = (if drop i s \<noteq> [] \<and> hd (drop i s) = of_char CHR ''-'' then - 1 else 1)"
  by (auto simp: sign_at_def hd_drop_conv_nth)

lemma parseInt_exec_iff: "parseInt_exec s r \<longleftrightarrow> r = parseInt s"
proof -
  let ?i = "length (takeWhile is_white_space s)"
  let ?t = "dropWhile is_white_space s"
  let ?j = "after_sign s ?i"
  let ?u = "drop ?j s"
  let ?k = "?j + length (takeWhile is_digit ?u)"
  have t: "drop ?i s = ?t" by (rule drop_takeWhile_length)
  have u: "?u = (if ?t \<noteq> [] \<and> (hd ?t = of_char CHR ''+'' \<or> hd ?t = of_char CHR ''-'')
                then tl ?t else ?t)"
    using drop_after_sign [of s ?i] by (simp only: t)
  have sg: "sign_at s ?i = (if ?t \<noteq> [] \<and> hd ?t = of_char CHR ''-'' then - 1 else 1)"
    using sign_at_drop [of s ?i] by (simp only: t)
  have z: "take (?k - ?j) ?u = takeWhile is_digit ?u"
    by (simp add: take_takeWhile_length)
  have p: "parseInt s =
      (if takeWhile is_digit ?u = [] then None
       else Some (sign_at s ?i * to_double (digits_value (takeWhile is_digit ?u))))"
    unfolding parseInt_def Let_def sg u [symmetric] by simp
  show ?thesis
  proof
    assume "parseInt_exec s r"
    then show "r = parseInt s"
    proof cases
      case (parseInt_NaN i k)
      then have "i = ?i" "k = ?k" by (simp_all add: scan_iff)
      with parseInt_NaN(4) p parseInt_NaN(1) show ?thesis by simp
    next
      case (parseInt_Number i k)
      then have ik: "i = ?i" "k = ?k" by (simp_all add: scan_iff)
      with parseInt_Number(4) have "takeWhile is_digit ?u \<noteq> []" by auto
      with parseInt_Number(1) p z ik show ?thesis by simp
    qed
  next
    assume r: "r = parseInt s"
    have i: "scan is_white_space s 0 ?i" by (simp add: scan_iff)
    have k: "scan is_digit s ?j ?k" by (simp add: scan_iff)
    show "parseInt_exec s r"
    proof (cases "takeWhile is_digit ?u = []")
      case True
      then have "?k = ?j" by simp
      from parseInt_NaN [OF i k this] True r p show ?thesis by simp
    next
      case False
      then have "?k \<noteq> ?j" by simp
      from parseInt_Number [OF i k this] False r p z show ?thesis by simp
    qed
  qed
qed

lemma map_exec_sound:
  "map_exec parts k A r \<Longrightarrow> r = A @ map (\<lambda>part. or_zero (parseInt part)) (drop k parts)"
proof (induction rule: map_exec.induct)
  case (map_end k A)
  then show ?case by simp
next
  case (map_step k n A r)
  then show ?case
    by (simp add: parseInt_exec_iff Cons_nth_drop_Suc [symmetric])
qed

lemma map_exec_complete:
  "map_exec parts k A (A @ map (\<lambda>part. or_zero (parseInt part)) (drop k parts))"
proof (induction "length parts - k" arbitrary: k A)
  case 0
  then show ?case by (simp add: map_end)
next
  case (Suc n)
  then have k: "k < length parts" by simp
  from Suc(2) have "n = length parts - Suc k" by simp
  from Suc(1) [OF this, of "A @ [or_zero (parseInt (parts ! k))]"]
  have "map_exec parts (Suc k) (A @ [or_zero (parseInt (parts ! k))])
          (A @ map (\<lambda>part. or_zero (parseInt part)) (drop k parts))"
    using k by (simp add: Cons_nth_drop_Suc [symmetric])
  moreover have "parseInt_exec (parts ! k) (parseInt (parts ! k))"
    by (simp add: parseInt_exec_iff)
  ultimately show ?case using k by (blast intro: map_step)
qed

lemma map_exec_iff:
  "map_exec parts 0 [] r \<longleftrightarrow> r = map (\<lambda>part. or_zero (parseInt part)) parts"
  using map_exec_sound [of parts 0 "[]" r] map_exec_complete [of parts 0 "[]"] by auto

lemma drop_split_at:
  assumes "p \<le> q" "q < length s"
  shows "drop p s = take (q - p) (drop p s) @ s ! q # drop (Suc q) s"
proof -
  have "drop (q - p) (drop p s) = drop q s" using assms(1) by simp
  then have "drop p s = take (q - p) (drop p s) @ drop q s"
    using append_take_drop_id [of "q - p" "drop p s"] by simp
  with assms(2) show ?thesis by (simp add: Cons_nth_drop_Suc)
qed

lemma split_exec_sound:
  "split_exec sep s p q A r \<Longrightarrow> p \<le> q \<Longrightarrow> sep \<notin> set (take (q - p) (drop p s)) \<Longrightarrow>
   r = A @ js_split sep (drop p s)"
proof (induction rule: split_exec.induct)
  case (split_end q p A)
  then have "take (q - p) (drop p s) = drop p s" by simp
  with split_end show ?case by (simp add: js_split_no_sep)
next
  case (split_hit q A p r)
  have d: "drop p s = take (q - p) (drop p s) @ sep # drop (Suc q) s"
    using drop_split_at [OF split_hit(5) split_hit(1)] split_hit(2) by simp
  have "js_split sep (drop p s) = take (q - p) (drop p s) # js_split sep (drop (Suc q) s)"
    by (subst d) (rule js_split_append [OF split_hit(6)])
  with split_hit(4) show ?case by simp
next
  case (split_miss q p A r)
  have "take (Suc q - p) (drop p s) = take (q - p) (drop p s) @ [s ! q]"
    using split_miss(1,5)
    by (simp add: Suc_diff_le take_Suc_conv_app_nth)
  with split_miss show ?case by simp
qed

lemma split_exec_complete:
  "p \<le> q \<Longrightarrow> sep \<notin> set (take (q - p) (drop p s)) \<Longrightarrow>
   split_exec sep s p q A (A @ js_split sep (drop p s))"
proof (induction "length s - q" arbitrary: p q A)
  case 0
  then have "take (q - p) (drop p s) = drop p s" by simp
  with 0 have "js_split sep (drop p s) = [drop p s]" by (simp add: js_split_no_sep)
  with 0(1) split_end [of q s sep p A] show ?case by simp
next
  case (Suc n)
  then have q: "q < length s" by simp
  from Suc(2) have n: "n = length s - Suc q" by simp
  show ?case
  proof (cases "s ! q = sep")
    case True
    have d: "drop p s = take (q - p) (drop p s) @ sep # drop (Suc q) s"
      using drop_split_at [OF Suc(3) q] True by simp
    have j: "js_split sep (drop p s) = take (q - p) (drop p s) # js_split sep (drop (Suc q) s)"
      by (subst d) (rule js_split_append [OF Suc(4)])
    from Suc(1) [OF n, of "Suc q" "A @ [take (q - p) (drop p s)]"]
    have "split_exec sep s (Suc q) (Suc q) (A @ [take (q - p) (drop p s)])
            (A @ js_split sep (drop p s))"
      by (simp add: j)
    with q True show ?thesis by (blast intro: split_hit)
  next
    case False
    have t: "take (Suc q - p) (drop p s) = take (q - p) (drop p s) @ [s ! q]"
      using q Suc(3) by (simp add: Suc_diff_le take_Suc_conv_app_nth)
    from Suc(1) [OF n, of p A] Suc(3,4) False t
    have "split_exec sep s p (Suc q) A (A @ js_split sep (drop p s))" by simp
    with q False show ?thesis by (blast intro: split_miss)
  qed
qed

lemma split_exec_iff: "split_exec sep s 0 0 [] r \<longleftrightarrow> r = js_split sep s"
  using split_exec_sound [of sep s 0 0 "[]" r] split_exec_complete [of 0 0 sep s "[]"] by auto

lemma parseVersion_exec_iff: "parseVersion_exec v r \<longleftrightarrow> r = parseVersion v"
proof
  assume "parseVersion_exec v r"
  then show "r = parseVersion v"
    by cases (simp_all add: parseVersion_def split_exec_iff map_exec_iff)
next
  assume r: "r = parseVersion v"
  show "parseVersion_exec v r"
  proof (cases v)
    case (JString s)
    have "parseVersion_exec (JString s)
        (Inr (map (\<lambda>part. or_zero (parseInt part)) (js_split (of_char CHR ''.'') s)))"
      by (rule parseVersion_string [where pieces = "js_split (of_char CHR ''.'') s"])
         (simp_all add: split_exec_iff map_exec_iff)
    with r JString show ?thesis by (simp add: parseVersion_def)
  next
    case JUndefined
    with r show ?thesis by (simp add: parseVersion_def parseVersion_undefined)
  next
    case JNull
    with r show ?thesis by (simp add: parseVersion_def parseVersion_null)
  qed
qed

lemma compare_exec_sound:
  "compare_exec v1 v2 maxLength i r \<Longrightarrow> r = compareVersions_loop v1 v2 maxLength i"
proof (induction rule: compare_exec.induct)
  case (compare_end i)
  then show ?case by (subst compareVersions_loop.simps) simp
next
  case (compare_less i)
  then show ?case by (subst compareVersions_loop.simps) simp
next
  case (compare_greater i)
  then show ?case by (subst compareVersions_loop.simps) simp
next
  case (compare_next i r)
  have "compareVersions_loop v1 v2 maxLength i = compareVersions_loop v1 v2 maxLength (i + 1)"
    using compare_next(1-3) by (subst compareVersions_loop.simps) simp
  with compare_next(5) show ?case by simp
qed

lemma compare_exec_complete:
  "compare_exec v1 v2 maxLength i (compareVersions_loop v1 v2 maxLength i)"
proof (induction "maxLength - i" arbitrary: i)
  case 0
  then have e: "\<not> i < maxLength" by simp
  then have "compareVersions_loop v1 v2 maxLength i = 0"
    by (subst compareVersions_loop.simps) simp
  with compare_end [OF e] show ?case by simp
next
  case (Suc n)
  then have i: "i < maxLength" by simp
  let ?part1 = "or_zero (index v1 i)"
  let ?part2 = "or_zero (index v2 i)"
  consider "?part1 < ?part2" | "\<not> ?part1 < ?part2" "?part1 > ?part2"
    | "\<not> ?part1 < ?part2" "\<not> ?part1 > ?part2"
    by blast
  then show ?case
  proof cases
    case 1
    with i have "compareVersions_loop v1 v2 maxLength i = - 1"
      by (subst compareVersions_loop.simps) simp
    with compare_less [OF i 1] show ?thesis by simp
  next
    case 2
    with i have "compareVersions_loop v1 v2 maxLength i = 1"
      by (subst compareVersions_loop.simps) simp
    with compare_greater [OF i 2] show ?thesis by simp
  next
    case 3
    with i have l: "compareVersions_loop v1 v2 maxLength i
        = compareVersions_loop v1 v2 maxLength (i + 1)"
      by (subst compareVersions_loop.simps) simp
    from Suc(2) have "n = maxLength - (i + 1)" by simp
    from Suc(1) [OF this]
    have "compare_exec v1 v2 maxLength (i + 1) (compareVersions_loop v1 v2 maxLength (i + 1))" .
    from compare_next [OF i 3 this] l show ?thesis by simp
  qed
qed

lemma compareVersions_exec_iff: "compareVersions_exec v1 v2 r \<longleftrightarrow> r = compareVersions v1 v2"
  unfolding compareVersions_exec_def compareVersions_def Let_def
  using compare_exec_sound compare_exec_complete by blast

lemma isVersionInRange_caught:
  "parseVersion version = Inl e
   \<or> (parseVersion version = Inr v \<and> parseVersion minVersion = Inl e)
   \<or> (parseVersion version = Inr v \<and> parseVersion minVersion = Inr lo
        \<and> parseVersion maxVersion = Inl e) \<Longrightarrow>
   isVersionInRange version minVersion maxVersion
     = (Inr False, [''Error parsing version strings:''])"
  by (auto simp: isVersionInRange_def isVersionInRange_try_def try_catch_def bind_result_def)

lemma negotiateVersion_caught:
  "parseVersion a = Inl e
   \<or> (parseVersion a = Inr clientMin \<and> parseVersion b = Inl e)
   \<or> (parseVersion a = Inr clientMin \<and> parseVersion b = Inr clientMax
        \<and> parseVersion c = Inl e)
   \<or> (parseVersion a = Inr clientMin \<and> parseVersion b = Inr clientMax
        \<and> parseVersion c = Inr serverMin \<and> parseVersion d = Inl e) \<Longrightarrow>
   negotiateVersion a b c d = (Inr None, [''Error negotiating versions:''])"
  by (auto simp: negotiateVersion_def negotiateVersion_try_def try_catch_def bind_result_def)

lemma isVersionInRange_exec_sound:
  assumes "isVersionInRange_exec version minVersion maxVersion out"
  shows "isVersionInRange version minVersion maxVersion = (Inr (fst out), snd out)"
  using assms
proof cases
  case (isVersionInRange_returns versionParts minVersionParts maxVersionParts c1 c2)
  then show ?thesis
    using isVersionInRange_parsed [of version versionParts minVersion minVersionParts
        maxVersion maxVersionParts]
    by (simp add: parseVersion_exec_iff compareVersions_exec_iff)
next
  case (isVersionInRange_catch1 e)
  then show ?thesis
    using isVersionInRange_caught [of version e] by (simp add: parseVersion_exec_iff)
next
  case (isVersionInRange_catch2 versionParts e)
  then show ?thesis
    using isVersionInRange_caught [of version e versionParts minVersion]
    by (simp add: parseVersion_exec_iff)
next
  case (isVersionInRange_catch3 versionParts minVersionParts e)
  then show ?thesis
    using isVersionInRange_caught [of version e versionParts minVersion minVersionParts
        maxVersion]
    by (simp add: parseVersion_exec_iff)
qed

lemma isVersionInRange_exec_complete:
  assumes "isVersionInRange version minVersion maxVersion = (Inr b, c)"
  shows "isVersionInRange_exec version minVersion maxVersion (b, c)"
proof (cases "parseVersion version")
  case (Inl e)
  with assms isVersionInRange_caught [of version e]
  have "b = False" "c = [''Error parsing version strings:'']" by simp_all
  with Inl show ?thesis
    using isVersionInRange_catch1 [of version e] by (simp add: parseVersion_exec_iff)
next
  case v: (Inr versionParts)
  show ?thesis
  proof (cases "parseVersion minVersion")
    case (Inl e)
    with v assms isVersionInRange_caught [of version e versionParts minVersion]
    have "b = False" "c = [''Error parsing version strings:'']" by simp_all
    with Inl v show ?thesis
      using isVersionInRange_catch2 [of version versionParts minVersion e]
      by (simp add: parseVersion_exec_iff)
  next
    case lo: (Inr minVersionParts)
    show ?thesis
    proof (cases "parseVersion maxVersion")
      case (Inl e)
      with v lo assms
        isVersionInRange_caught [of version e versionParts minVersion minVersionParts maxVersion]
      have "b = False" "c = [''Error parsing version strings:'']" by simp_all
      with Inl v lo show ?thesis
        using isVersionInRange_catch3 [of version versionParts minVersion minVersionParts
            maxVersion e]
        by (simp add: parseVersion_exec_iff)
    next
      case hi: (Inr maxVersionParts)
      from assms isVersionInRange_parsed [OF v lo hi]
      have "b = (compareVersions versionParts minVersionParts \<ge> 0
                 \<and> compareVersions versionParts maxVersionParts \<le> 0)" "c = []"
        by simp_all
      with v lo hi show ?thesis
        using isVersionInRange_returns [of version versionParts minVersion minVersionParts
            maxVersion maxVersionParts "compareVersions versionParts minVersionParts"
            "compareVersions versionParts maxVersionParts"]
        by (simp add: parseVersion_exec_iff compareVersions_exec_iff)
    qed
  qed
qed

lemma isVersionInRange_exec_iff:
  "isVersionInRange_exec version minVersion maxVersion out
     \<longleftrightarrow> isVersionInRange version minVersion maxVersion = (Inr (fst out), snd out)"
  using isVersionInRange_exec_sound [of version minVersion maxVersion out]
    isVersionInRange_exec_complete [of version minVersion maxVersion "fst out" "snd out"]
  by auto

lemma negotiateVersion_exec_sound:
  assumes "negotiateVersion_exec a b c d out"
  shows "negotiateVersion a b c d = (Inr (fst out), snd out)"
  using assms
proof cases
  case (negotiateVersion_returns clientMin clientMax serverMin serverMax c1 lo c2 hi c3)
  then show ?thesis
    using negotiateVersion_parsed [of a clientMin b clientMax c serverMin d serverMax]
    by (simp add: parseVersion_exec_iff compareVersions_exec_iff overlapMin_def overlapMax_def)
next
  case (negotiateVersion_catch1 e)
  then show ?thesis
    using negotiateVersion_caught [of a e] by (simp add: parseVersion_exec_iff)
next
  case (negotiateVersion_catch2 clientMin e)
  then show ?thesis
    using negotiateVersion_caught [of a e clientMin b] by (simp add: parseVersion_exec_iff)
next
  case (negotiateVersion_catch3 clientMin clientMax e)
  then show ?thesis
    using negotiateVersion_caught [of a e clientMin b clientMax c]
    by (simp add: parseVersion_exec_iff)
next
  case (negotiateVersion_catch4 clientMin clientMax serverMin e)
  then show ?thesis
    using negotiateVersion_caught [of a e clientMin b clientMax c serverMin d]
    by (simp add: parseVersion_exec_iff)
qed

lemma negotiateVersion_exec_complete:
  assumes "negotiateVersion a b c d = (Inr r, l)"
  shows "negotiateVersion_exec a b c d (r, l)"
proof (cases "parseVersion a")
  case (Inl e)
  with assms negotiateVersion_caught [of a e]
  have "r = None" "l = [''Error negotiating versions:'']" by simp_all
  with Inl show ?thesis
    using negotiateVersion_catch1 [of a e] by (simp add: parseVersion_exec_iff)
next
  case pa: (Inr clientMin)
  show ?thesis
  proof (cases "parseVersion b")
    case (Inl e)
    with pa assms negotiateVersion_caught [of a e clientMin b]
    have "r = None" "l = [''Error negotiating versions:'']" by simp_all
    with Inl pa show ?thesis
      using negotiateVersion_catch2 [of a clientMin b e] by (simp add: parseVersion_exec_iff)
  next
    case pb: (Inr clientMax)
    show ?thesis
    proof (cases "parseVersion c")
      case (Inl e)
      with pa pb assms negotiateVersion_caught [of a e clientMin b clientMax c]
      have "r = None" "l = [''Error negotiating versions:'']" by simp_all
      with Inl pa pb show ?thesis
        using negotiateVersion_catch3 [of a clientMin b clientMax c e]
        by (simp add: parseVersion_exec_iff)
    next
      case pc: (Inr serverMin)
      show ?thesis
      proof (cases "parseVersion d")
        case (Inl e)
        with pa pb pc assms
          negotiateVersion_caught [of a e clientMin b clientMax c serverMin d]
        have "r = None" "l = [''Error negotiating versions:'']" by simp_all
        with Inl pa pb pc show ?thesis
          using negotiateVersion_catch4 [of a clientMin b clientMax c serverMin d e]
          by (simp add: parseVersion_exec_iff)
      next
        case pd: (Inr serverMax)
        let ?lo = "overlapMin clientMin serverMin"
        let ?hi = "overlapMax clientMax serverMax"
        from assms negotiateVersion_parsed [OF pa pb pc pd]
        have r: "r = (if compareVersions ?lo ?hi \<le> 0 then Some (versionToString ?hi) else None)"
          and l: "l = []"
          by (auto split: if_splits)
        have "negotiateVersion_exec a b c d
            (if compareVersions ?lo ?hi \<le> 0 then Some (versionToString ?hi) else None, [])"
          by (rule negotiateVersion_returns
                [where clientMin = clientMin and clientMax = clientMax
                   and serverMin = serverMin and serverMax = serverMax
                   and ?c1.0 = "compareVersions clientMin serverMin"
                   and ?c2.0 = "compareVersions clientMax serverMax"])
             (simp_all add: pa pb pc pd parseVersion_exec_iff compareVersions_exec_iff
                overlapMin_def overlapMax_def)
        with r l show ?thesis by simp
      qed
    qed
  qed
qed

lemma negotiateVersion_exec_iff:
  "negotiateVersion_exec a b c d out \<longleftrightarrow> negotiateVersion a b c d = (Inr (fst out), snd out)"
  using negotiateVersion_exec_sound [of a b c d out]
    negotiateVersion_exec_complete [of a b c d "fst out" "snd out"]
  by auto

lemma isVersionInRange_on_strings:
  "\<exists>r. isVersionInRange (JString version) (JString minVersion) (JString maxVersion) = (Inr r, [])"
  by (simp add: isVersionInRange_def isVersionInRange_try_def try_catch_def bind_result_def
      parseVersion_JString)

lemma negotiateVersion_on_strings:
  "\<exists>r. negotiateVersion (JString a) (JString b) (JString c) (JString d) = (Inr r, [])"
  by (simp add: negotiateVersion_def negotiateVersion_try_def try_catch_def bind_result_def
      parseVersion_JString)

text \<open>
  Claim C9. Executed step by step on string arguments, \<^verbatim>\<open>isVersionInRange\<close> and
  \<^verbatim>\<open>negotiateVersion\<close> each have exactly one outcome: every loop and every scan ends
  (the functions are total) and no two paths give different results (they are
  deterministic). That outcome has an empty console, so the \<^verbatim>\<open>catch\<close> branch, which
  logs, is not taken; and \<^verbatim>\<open>parseVersion\<close> of a string never throws.
\<close>

theorem version_functions_total_on_strings:
  "(\<exists>!out. isVersionInRange_exec (JString version) (JString minVersion) (JString maxVersion) out)
   \<and> (\<forall>out. isVersionInRange_exec (JString version) (JString minVersion) (JString maxVersion) out
          \<longrightarrow> snd out = [])
   \<and> (\<exists>!out. negotiateVersion_exec (JString clientMinVersion) (JString clientMaxVersion)
            (JString serverMinVersion) (JString serverMaxVersion) out)
   \<and> (\<forall>out. negotiateVersion_exec (JString clientMinVersion) (JString clientMaxVersion)
            (JString serverMinVersion) (JString serverMaxVersion) out
          \<longrightarrow> snd out = [])
   \<and> (\<forall>r. parseVersion_exec (JString version) r \<longrightarrow> (\<exists>parts. r = Inr parts))"
proof -
  obtain b where b: "isVersionInRange (JString version) (JString minVersion) (JString maxVersion)
      = (Inr b, [])"
    using isVersionInRange_on_strings by blast
  obtain r where r: "negotiateVersion (JString clientMinVersion) (JString clientMaxVersion)
      (JString serverMinVersion) (JString serverMaxVersion) = (Inr r, [])"
    using negotiateVersion_on_strings by blast
  have i: "isVersionInRange_exec (JString version) (JString minVersion) (JString maxVersion) out
      \<longleftrightarrow> out = (b, [])" for out
    using b by (cases out) (auto simp: isVersionInRange_exec_iff)
  have n: "negotiateVersion_exec (JString clientMinVersion) (JString clientMaxVersion)
      (JString serverMinVersion) (JString serverMaxVersion) out \<longleftrightarrow> out = (r, [])" for out
    using r by (cases out) (auto simp: negotiateVersion_exec_iff)
  have p: "\<forall>x. parseVersion_exec (JString version) x \<longrightarrow> (\<exists>parts. x = Inr parts)"
    by (simp add: parseVersion_exec_iff parseVersion_def)
  from i n p show ?thesis by auto
qed

theorem version_functions_total_on_strings_witness:
  "isVersionInRange_exec (JString (str ''1.2'')) (JString (str ''1.0'')) (JString (str ''2.0''))
     (True, [])
   \<and> negotiateVersion_exec (JString (str ''1.0'')) (JString (str ''2.0''))
       (JString (str ''1.5'')) (JString (str ''3.0'')) (Some (str ''2.0''), [])
   \<and> parseVersion_exec (JString (str ''1.2'')) (Inr [1, 2])"
proof -
  note inst = version_functions_total_on_strings
    [of "str ''1.2''" "str ''1.0''" "str ''2.0''" "str ''1.0''" "str ''2.0''" "str ''1.5''"
        "str ''3.0''"]
  have iv: "isVersionInRange (JString (str ''1.2'')) (JString (str ''1.0'')) (JString (str ''2.0''))
      = (Inr True, [])" by code_simp
  have nv: "negotiateVersion (JString (str ''1.0'')) (JString (str ''2.0''))
       (JString (str ''1.5'')) (JString (str ''3.0'')) = (Inr (Some (str ''2.0'')), [])"
    by code_simp
  have pv: "parseVersion (JString (str ''1.2'')) = Inr [1, 2]" by code_simp
  from inst obtain out where o: "isVersionInRange_exec (JString (str ''1.2''))
      (JString (str ''1.0'')) (JString (str ''2.0'')) out" "snd out = []"
    by blast
  from o(1) iv have "fst out = True" by (simp add: isVersionInRange_exec_iff)
  with o have r1: "isVersionInRange_exec (JString (str ''1.2'')) (JString (str ''1.0''))
      (JString (str ''2.0'')) (True, [])"
    by (cases out) simp
  from inst obtain out' where o': "negotiateVersion_exec (JString (str ''1.0''))
      (JString (str ''2.0'')) (JString (str ''1.5'')) (JString (str ''3.0'')) out'" "snd out' = []"
    by blast
  from o'(1) nv have "fst out' = Some (str ''2.0'')" by (simp add: negotiateVersion_exec_iff)
  with o' have r2: "negotiateVersion_exec (JString (str ''1.0'')) (JString (str ''2.0''))
       (JString (str ''1.5'')) (JString (str ''3.0'')) (Some (str ''2.0''), [])"
    by (cases out') simp
  have r3: "parseVersion_exec (JString (str ''1.2'')) (Inr [1, 2])"
    using pv by (simp add: parseVersion_exec_iff)
  from r1 r2 r3 show ?thesis by blast
qed

section \<open>Claims about the outer page\<close>

lemma step_timer_disarmed:
  "\<not> fallbackTimeout s \<Longrightarrow> \<not> fallbackTimeout (step s e)"
  by (cases e) (simp_all add: showConnected_def showError_def clearTimeout_def)

lemma step_disarmed_count:
  "\<not> fallbackTimeout s \<Longrightarrow>
   count_list (ran (step s e)) FallbackTimeout = count_list (ran s) FallbackTimeout"
  by (cases e) (simp_all add: showConnected_def showError_def clearTimeout_def)

lemma run_disarmed_count:
  "\<not> fallbackTimeout s \<Longrightarrow>
   count_list (ran (run s events)) FallbackTimeout = count_list (ran s) FallbackTimeout"
proof (induction events arbitrary: s)
  case Nil
  then show ?case by (simp add: run_def)
next
  case (Cons e events)
  from Cons.prems have d: "\<not> fallbackTimeout (step s e)" by (rule step_timer_disarmed)
  have "run s (e # events) = run (step s e) events" by (simp add: run_def)
  then show ?case
    using Cons.IH [OF d] step_disarmed_count [OF Cons.prems, of e] by simp
qed

lemma run_Cons: "run s (e # events) = run (step s e) events"
  by (simp add: run_def)

lemma step_loadListener: "loadListener (step s e) = loadListener s"
  by (cases e) (simp_all add: showConnected_def showError_def clearTimeout_def)

lemma run_loadListener: "loadListener (run s events) = loadListener s"
  by (induction events arbitrary: s) (simp_all add: run_def step_loadListener)

lemma step_armed_count:
  "count_list (ran (step s e)) FallbackTimeout
     \<le> count_list (ran s) FallbackTimeout + (if fallbackTimeout s \<and> \<not> fallbackTimeout (step s e) then 1 else 0)"
  by (cases e) (simp_all add: showConnected_def showError_def clearTimeout_def)

lemma run_fallback_at_most_once:
  "count_list (ran (run s events)) FallbackTimeout
     \<le> count_list (ran s) FallbackTimeout + (if fallbackTimeout s then 1 else 0)"
proof (induction events arbitrary: s)
  case Nil
  then show ?case by (simp add: run_def)
next
  case (Cons e events)
  show ?case
    using Cons.IH [of "step s e"] step_armed_count [of s e] step_timer_disarmed [of s e]
    by (auto simp: run_Cons split: if_splits)
qed

text \<open>
  Claim C7, as amended. Once the \<^verbatim>\<open>load\<close> event of the frame has fired, the fallback timer
  is cleared and its callback never runs afterwards, whatever events follow; and in every
  run the fallback callback runs at most once. The cancellation goes one way only: the
  \<^verbatim>\<open>load\<close> listener stays registered through every event, the firing of the fallback timer
  included, so a \<^verbatim>\<open>load\<close> event that comes after the fallback still runs the listener.
\<close>

theorem load_event_cancels_fallback:
  "\<not> fallbackTimeout (run initializeCopilot (before @ [IframeLoad]))
   \<and> count_list (ran (run initializeCopilot (before @ [IframeLoad] @ after))) FallbackTimeout
        = count_list (ran (run initializeCopilot before)) FallbackTimeout
   \<and> count_list (ran (run initializeCopilot events)) FallbackTimeout \<le> 1
   \<and> loadListener (run initializeCopilot events)"
proof -
  let ?s = "run initializeCopilot before"
  have l: "loadListener ?s"
    by (simp add: run_loadListener initializeCopilot_def showLoading_def)
  have s': "run initializeCopilot (before @ [IframeLoad]) = step ?s IframeLoad"
    by (simp add: run_def)
  have d: "\<not> fallbackTimeout (step ?s IframeLoad)"
    using l by (simp add: showConnected_def clearTimeout_def)
  have c: "count_list (ran (step ?s IframeLoad)) FallbackTimeout
             = count_list (ran ?s) FallbackTimeout"
    using l by (simp add: showConnected_def clearTimeout_def)
  have "run initializeCopilot (before @ [IframeLoad] @ after) = run (step ?s IframeLoad) after"
    by (simp add: run_def)
  then have a: "count_list (ran (run initializeCopilot (before @ [IframeLoad] @ after))) FallbackTimeout
          = count_list (ran ?s) FallbackTimeout"
    using run_disarmed_count [OF d, of after] c by simp
  have b: "count_list (ran (run initializeCopilot events)) FallbackTimeout \<le> 1"
    using run_fallback_at_most_once [of initializeCopilot events]
    by (simp add: initializeCopilot_def showLoading_def)
  have e: "loadListener (run initializeCopilot events)"
    by (simp add: run_loadListener initializeCopilot_def showLoading_def)
  from a b d e s' show ?thesis by simp
qed

theorem load_event_cancels_fallback_witness:
  "\<not> fallbackTimeout (run initializeCopilot ([InitializationCompleted] @ [IframeLoad]))
   \<and> ran (run initializeCopilot ([InitializationCompleted] @ [IframeLoad] @ [TimerDue, IframeLoad]))
        = [InitializationDone, LoadListener, LoadListener]
   \<and> count_list (ran (run initializeCopilot
          ([InitializationCompleted] @ [IframeLoad] @ [TimerDue, IframeLoad]))) FallbackTimeout = 0"
proof -
  have r: "ran (run initializeCopilot ([InitializationCompleted] @ [IframeLoad] @ [TimerDue, IframeLoad]))
        = [InitializationDone, LoadListener, LoadListener]" by code_simp
  have z: "count_list (ran (run initializeCopilot [InitializationCompleted])) FallbackTimeout = 0"
    by code_simp
  from load_event_cancels_fallback [of "[InitializationCompleted]" "[TimerDue, IframeLoad]"] z
  have "\<not> fallbackTimeout (run initializeCopilot ([InitializationCompleted] @ [IframeLoad]))"
    "count_list (ran (run initializeCopilot
          ([InitializationCompleted] @ [IframeLoad] @ [TimerDue, IframeLoad]))) FallbackTimeout = 0"
    by simp_all
  with r show ?thesis by blast
qed

theorem fallback_does_not_cancel_load_counterexample:
  "ran (run initializeCopilot [TimerDue]) = [FallbackTimeout]
   \<and> loadListener (run initializeCopilot [TimerDue])
   \<and> ran (run initializeCopilot [TimerDue, IframeLoad]) = [FallbackTimeout, LoadListener]"
  by code_simp

section \<open>Claims about the inner page\<close>

text \<open>
  Claim C8. When the inner page is embedded (its parent window is not the page itself), the
  \<^verbatim>\<open>DOMContentLoaded\<close> handler posts a message whose \<^verbatim>\<open>type\<close> is \<^verbatim>\<open>"copilot-ready"\<close> to the
  parent. The post is the fifth effect of the handler whatever the outcome of the start-up
  and of the transport handshake (also when the handshake never settles), and neither the
  construction of the application nor any effect of the transport comes before it.
\<close>

theorem ready_signal_before_handshake:
  assumes "embedded p"
  shows "take 5 (DOMContentLoaded p) = ready_prefix
       \<and> (\<exists>m target. DOMContentLoaded p ! 4 = PostMessageToParent m target
             \<and> signal_type m = ''copilot-ready'')
       \<and> \<not> list_ex transport_effect (take 5 (DOMContentLoaded p))
       \<and> \<not> list_ex (\<lambda>e. e = NewCopilotApp) (take 5 (DOMContentLoaded p))"
  using assms
  by (simp add: DOMContentLoaded_def ready_prefix_def transport_effect_def)

theorem ready_signal_before_handshake_witness:
  "embedded \<lparr>embedded = True, startup_throws = False, transport_handshake = NeverSettles,
             has_chat_messages = True\<rparr>
   \<and> take 5 (DOMContentLoaded \<lparr>embedded = True, startup_throws = False,
        transport_handshake = NeverSettles, has_chat_messages = True\<rparr>) = ready_prefix
   \<and> DOMContentLoaded \<lparr>embedded = True, startup_throws = False,
        transport_handshake = NeverSettles, has_chat_messages = True\<rparr>
       = ready_prefix @ [NewCopilotApp, ConsoleLog ''[AI-COPILOT] Initializing...'', ShowConnecting,
            ConsoleLog ''[AI-COPILOT] Creating transport...'',
            ConsoleLog ''[AI-COPILOT] Preparing to connect...'', TransportPrepareToConnect]"
proof -
  let ?p = "\<lparr>embedded = True, startup_throws = False, transport_handshake = NeverSettles,
             has_chat_messages = True\<rparr>"
  have e: "embedded ?p" by simp
  have f: "DOMContentLoaded ?p
       = ready_prefix @ [NewCopilotApp, ConsoleLog ''[AI-COPILOT] Initializing...'', ShowConnecting,
            ConsoleLog ''[AI-COPILOT] Creating transport...'',
            ConsoleLog ''[AI-COPILOT] Preparing to connect...'', TransportPrepareToConnect]"
    by (simp add: DOMContentLoaded_def ready_prefix_def initialize_def)
  from ready_signal_before_handshake [OF e] e f show ?thesis by blast
qed

section \<open>Claims about the patient data store\<close>

text \<open>
  Claim C10. \<^verbatim>\<open>updateBloodPressure\<close> and \<^verbatim>\<open>updateBloodSugar\<close> leave the whole state as it is
  when their element (\<^verbatim>\<open>last-bp\<close>, respectively \<^verbatim>\<open>last-sugar\<close>) is absent: no field of
  \<^verbatim>\<open>patientData\<close> changes and no medical-history entry is added. When the element is
  present, \<^verbatim>\<open>patientData\<close> afterwards is the old object with exactly the field
  \<^verbatim>\<open>bloodPressure\<close> (respectively \<^verbatim>\<open>bloodSugar\<close>) replaced.
\<close>

theorem vitals_update_atomic:
  "(document st ''last-bp'' = None \<longrightarrow> updateBloodPressure toString sys dia st = st)
   \<and> (document st ''last-sugar'' = None \<longrightarrow> updateBloodSugar toString v st = st)
   \<and> (document st ''last-bp'' \<noteq> None \<longrightarrow>
        patientData (updateBloodPressure toString sys dia st)
          = (patientData st)\<lparr>bloodPressure := \<lparr>systolic = sys, diastolic = dia\<rparr>\<rparr>)
   \<and> (document st ''last-sugar'' \<noteq> None \<longrightarrow>
        patientData (updateBloodSugar toString v st) = (patientData st)\<lparr>bloodSugar := v\<rparr>)"
  by (auto simp: updateBloodPressure_def updateBloodSugar_def addMedicalHistoryEntry_def
      split: option.splits)

theorem vitals_update_atomic_witness:
  "document bare_page ''last-bp'' = None
   \<and> updateBloodPressure number_text 130 85 bare_page = bare_page
   \<and> document bare_page ''last-sugar'' = None
   \<and> updateBloodSugar number_text 110 bare_page = bare_page
   \<and> document dashboard_page ''last-bp'' \<noteq> None
   \<and> patientData (updateBloodPressure number_text 130 85 dashboard_page)
       = initial_patientData\<lparr>bloodPressure := \<lparr>systolic = 130, diastolic = 85\<rparr>\<rparr>
   \<and> document dashboard_page ''last-sugar'' \<noteq> None
   \<and> patientData (updateBloodSugar number_text 110 dashboard_page)
       = initial_patientData\<lparr>bloodSugar := 110\<rparr>"
proof -
  have a: "document bare_page ''last-bp'' = None" "document bare_page ''last-sugar'' = None"
    by (simp_all add: bare_page_def)
  have p: "document dashboard_page ''last-bp'' \<noteq> None"
    "document dashboard_page ''last-sugar'' \<noteq> None"
    by (simp_all add: dashboard_page_def)
  have d: "patientData dashboard_page = initial_patientData"
    by (simp add: dashboard_page_def)
  from vitals_update_atomic [of bare_page number_text 130 85 110]
    vitals_update_atomic [of dashboard_page number_text 130 85 110] a p d
  show ?thesis by simp
qed

end
